theory Spec2Isabelle
  imports Complex_Main "HOL-Library.AList" "HOL-Library.Multiset"
begin

section \<open>Data model of the map service\<close>

text \<open>
  The classes of the \<^verbatim>\<open>carla\<close> module that \<^verbatim>\<open>scene_layout.py\<close> reads. Python floats are
  written as \<^typ>\<open>real\<close>; Python integers as \<^typ>\<open>int\<close>. A \<^verbatim>\<open>carla.Location\<close> is also
  used where the API yields a \<^verbatim>\<open>carla.Vector3D\<close> (it has the same three fields).
\<close>

record location =
  loc_x :: real
  loc_y :: real
  loc_z :: real

record rotation =
  pitch :: real
  yaw :: real
  roll :: real

record transform =
  location :: location
  rotation :: rotation

record geolocation =
  latitude :: real
  longitude :: real
  altitude :: real

text \<open>
  Modelled from the spec: the \<^verbatim>\<open>transform\<close> property of \<^verbatim>\<open>carla.Waypoint\<close> is defined by
  the Python bindings, not by this file. The spec's data model says that a pose is
  ``immutable once read'' and that a waypoint is ``never mutated after creation'', so a
  waypoint holds its pose as a value and every read of \<^verbatim>\<open>w.transform\<close> yields a fresh
  copy of it.
\<close>

record waypoint =
  id_w :: int
  road_id :: int
  lane_id :: int
  lane_width :: real
  transform :: transform

text \<open>
  The map object: \<^verbatim>\<open>get_topology()\<close>, the \<^verbatim>\<open>next(distance)\<close> query of its waypoints and
  \<^verbatim>\<open>transform_to_geolocation\<close>. They are answers of the simulator, so they are fields
  holding arbitrary functions.
\<close>

record carla_map =
  get_topology :: "(waypoint \<times> waypoint) list"
  next_w :: "waypoint \<Rightarrow> real \<Rightarrow> waypoint list"
  transform_to_geolocation :: "location \<Rightarrow> geolocation"

definition add_loc :: "location \<Rightarrow> location \<Rightarrow> location" where
  "add_loc a b = \<lparr>loc_x = loc_x a + loc_x b, loc_y = loc_y a + loc_y b, loc_z = loc_z a + loc_z b\<rparr>"

definition scale_vec :: "real \<Rightarrow> location \<Rightarrow> location" where
  "scale_vec s v = \<lparr>loc_x = s * loc_x v, loc_y = s * loc_y v, loc_z = s * loc_z v\<rparr>"

text \<open>\<^verbatim>\<open>carla.Location(x=..., y=...)\<close>: the third coordinate defaults to zero.\<close>

definition Location_xy :: "real \<Rightarrow> real \<Rightarrow> location" where
  "Location_xy a b = \<lparr>loc_x = a, loc_y = b, loc_z = 0\<rparr>"

section \<open>Python containers\<close>

text \<open>
  A dictionary is an association list in insertion order: \<^const>\<open>AList.update\<close> replaces the
  value of a key that is present where it stands and appends a new key at the end, as
  assignment to a Python 3.7 dictionary does. Subscripting raises on a missing key or on
  an index out of range; the indices of this program are never negative.
\<close>

datatype error = KeyError | IndexError

definition getitem :: "('k \<times> 'v) list \<Rightarrow> 'k \<Rightarrow> error + 'v" where
  "getitem d k = (case map_of d k of None \<Rightarrow> Inl KeyError | Some v \<Rightarrow> Inr v)"

definition index :: "'a list \<Rightarrow> nat \<Rightarrow> error + 'a" where
  "index xs i = (if i < length xs then Inr (xs ! i) else Inl IndexError)"

definition contains :: "('k \<times> 'v) list \<Rightarrow> 'k \<Rightarrow> bool" where
  "contains d k = (map_of d k \<noteq> None)"

definition bind_err :: "error + 'a \<Rightarrow> ('a \<Rightarrow> error + 'b) \<Rightarrow> error + 'b" where
  "bind_err r f = (case r of Inl e \<Rightarrow> Inl e | Inr v \<Rightarrow> f v)"

section \<open>The lane-waypoint graph builder\<close>

subsection \<open>Lateral shift\<close>

text \<open>
  \<^verbatim>\<open>_lateral_shift\<close> adds 90 to the yaw of the transform object it is given and returns
  a location. The updated transform object is returned beside the location, so that the
  assignment is visible. \<^verbatim>\<open>get_forward_vector\<close> is a method of the API and is a parameter.
\<close>

definition lateral_shift ::
  "(transform \<Rightarrow> location) \<Rightarrow> transform \<Rightarrow> real \<Rightarrow> transform \<times> location" where
  "lateral_shift get_forward_vector t shift =
     (let t' = t\<lparr>rotation := (rotation t)\<lparr>yaw := yaw (rotation t) + 90\<rparr>\<rparr>
      in (t', add_loc (location t') (scale_vec shift (get_forward_vector t'))))"

subsection \<open>Topology sampler\<close>

definition precision :: real where
  "precision = 0.05"

text \<open>
  The \<^verbatim>\<open>while\<close> loop of the sampler. \<open>waypoint\<close> is the seed, \<open>waypoints\<close> the list built so
  far and \<open>nxt\<close> the last answer of \<^verbatim>\<open>next\<close>. Nothing bounds the loop, so a walk that
  never leaves the road has the value \<open>None\<close>.
\<close>

partial_function (option) sample_loop ::
  "carla_map \<Rightarrow> waypoint \<Rightarrow> waypoint list \<Rightarrow> waypoint list \<Rightarrow> waypoint list option" where
  "sample_loop m waypoint waypoints nxt =
     (if nxt \<noteq> [] \<and> road_id (hd nxt) = road_id waypoint
      then sample_loop m waypoint (waypoints @ [hd nxt]) (next_w m (hd nxt) precision)
      else Some waypoints)"

declare sample_loop.simps [code]

definition sample_lane :: "carla_map \<Rightarrow> waypoint \<Rightarrow> waypoint list option" where
  "sample_lane m waypoint = sample_loop m waypoint [waypoint] (next_w m waypoint precision)"

subsection \<open>Lane records and road groups\<close>

record lane =
  waypoints :: "waypoint list"
  left_marking :: "location list"
  right_marking :: "location list"

type_synonym road_group = "(int \<times> lane) list"

type_synonym map_dict = "(int \<times> road_group) list"

text \<open>
  The two comprehensions over \<^verbatim>\<open>waypoints\<close>. Each reads \<^verbatim>\<open>w.transform\<close> anew, so the
  transform object that \<^const>\<open>lateral_shift\<close> updates is dropped after the call.
\<close>

definition build_lane :: "(transform \<Rightarrow> location) \<Rightarrow> waypoint list \<Rightarrow> lane" where
  "build_lane get_forward_vector ws =
     \<lparr>waypoints = ws,
      left_marking =
        map (\<lambda>w. snd (lateral_shift get_forward_vector (transform w) ((- lane_width w) * 0.5))) ws,
      right_marking =
        map (\<lambda>w. snd (lateral_shift get_forward_vector (transform w) (lane_width w * 0.5))) ws\<rparr>"

text \<open>
  \<^verbatim>\<open>if map_dict.get(road_id) is None: map_dict[road_id] = {}\<close> followed by
  \<^verbatim>\<open>map_dict[road_id][lane_id] = lane\<close>.
\<close>

definition insert_lane :: "map_dict \<Rightarrow> waypoint \<Rightarrow> lane \<Rightarrow> error + map_dict" where
  "insert_lane map_dict waypoint lane =
     (let map_dict' =
        (if map_of map_dict (road_id waypoint) = None
         then AList.update (road_id waypoint) [] map_dict
         else map_dict)
      in bind_err (getitem map_dict' (road_id waypoint)) (\<lambda>group.
           Inr (AList.update (road_id waypoint)
                  (AList.update (lane_id waypoint) lane group) map_dict')))"

text \<open>
  The loop over the sorted topology. The result is \<open>None\<close> when sampling a lane does not
  return, \<open>Some (Inl e)\<close> when an exception \<open>e\<close> is raised and \<open>Some (Inr d)\<close> when the
  loop ends with the dictionary \<open>d\<close>.
\<close>

fun topology_loop ::
  "(transform \<Rightarrow> location) \<Rightarrow> carla_map \<Rightarrow> waypoint list \<Rightarrow> map_dict
    \<Rightarrow> (error + map_dict) option" where
  "topology_loop gfv m [] map_dict = Some (Inr map_dict)"
| "topology_loop gfv m (waypoint # topology) map_dict =
     (case sample_lane m waypoint of
        None \<Rightarrow> None
      | Some ws \<Rightarrow>
          (case insert_lane map_dict waypoint (build_lane gfv ws) of
             Inl e \<Rightarrow> Some (Inl e)
           | Inr map_dict' \<Rightarrow> topology_loop gfv m topology map_dict'))"

definition elevation :: "waypoint \<Rightarrow> real" where
  "elevation w = loc_z (location (transform w))"

text \<open>\<^verbatim>\<open>sorted\<close> is stable, and so is \<^const>\<open>sort_key\<close>.\<close>

definition sorted_topology :: "carla_map \<Rightarrow> waypoint list" where
  "sorted_topology m = sort_key elevation (map fst (get_topology m))"

definition build_map_dict ::
  "(transform \<Rightarrow> location) \<Rightarrow> carla_map \<Rightarrow> (error + map_dict) option" where
  "build_map_dict gfv m = topology_loop gfv m (sorted_topology m) []"

subsection \<open>Graph assembler\<close>

record waypoint_dict =
  road_id_n :: int
  lane_id_n :: int
  position :: "real list"
  orientation :: "real list"
  left_margin_position :: "real list"
  right_margin_position :: "real list"
  next_waypoints_ids :: "int list"
  left_lane_waypoint_id :: int
  right_lane_waypoint_id :: int

type_synonym graph = "(int \<times> waypoint_dict) list"

text \<open>
  \<^verbatim>\<open>lane_key - 1 if lane_key - 1 else lane_key - 2\<close>: an integer is true when it is not
  zero.
\<close>

definition left_lane_key :: "int \<Rightarrow> int" where
  "left_lane_key lane_key = (if lane_key - 1 \<noteq> 0 then lane_key - 1 else lane_key - 2)"

definition right_lane_key :: "int \<Rightarrow> int" where
  "right_lane_key lane_key = (if lane_key + 1 \<noteq> 0 then lane_key + 1 else lane_key + 2)"

text \<open>
  The neighbour lookup, written twice in the source (for the left and the right lane):
  the identity starts as \<open>-1\<close> and is replaced when the key is in the road group and the
  index is within the neighbour's waypoints.
\<close>

definition lane_waypoint_id :: "map_dict \<Rightarrow> int \<Rightarrow> int \<Rightarrow> nat \<Rightarrow> error + int" where
  "lane_waypoint_id map_dict road_key neighbor_key i =
     bind_err (getitem map_dict road_key) (\<lambda>group.
       if contains group neighbor_key
       then bind_err (getitem map_dict road_key) (\<lambda>group'.
            bind_err (getitem group' neighbor_key) (\<lambda>neighbor.
              if i < length (waypoints neighbor)
              then bind_err (index (waypoints neighbor) i) (\<lambda>w. Inr (id_w w))
              else Inr (- 1)))
       else Inr (- 1))"

definition geo_list :: "geolocation \<Rightarrow> real list" where
  "geo_list g = [latitude g, longitude g, altitude g]"

text \<open>The body of the innermost loop: the key and the record stored under it.\<close>

definition make_waypoint_dict ::
  "carla_map \<Rightarrow> map_dict \<Rightarrow> int \<Rightarrow> int \<Rightarrow> lane \<Rightarrow> nat \<Rightarrow> error + (int \<times> waypoint_dict)" where
  "make_waypoint_dict m map_dict road_key lane_key lane i =
     (let next_ids = map id_w (drop (i + 1) (waypoints lane)) in
      bind_err (lane_waypoint_id map_dict road_key (left_lane_key lane_key) i) (\<lambda>left_id.
      bind_err (lane_waypoint_id map_dict road_key (right_lane_key lane_key) i) (\<lambda>right_id.
      bind_err (index (left_marking lane) i) (\<lambda>lmp.
      bind_err (index (right_marking lane) i) (\<lambda>rmp.
      bind_err (index (waypoints lane) i) (\<lambda>wl.
      bind_err (index (waypoints lane) i) (\<lambda>wo.
      bind_err (getitem map_dict road_key) (\<lambda>group.
      bind_err (getitem group lane_key) (\<lambda>lane'.
      bind_err (index (waypoints lane') i) (\<lambda>wk.
        Inr (id_w wk,
          \<lparr>road_id_n = road_key,
           lane_id_n = lane_key,
           position = geo_list (transform_to_geolocation m (location (transform wl))),
           orientation =
             [roll (rotation (transform wo)), pitch (rotation (transform wo)),
              yaw (rotation (transform wo))],
           left_margin_position = geo_list (transform_to_geolocation m lmp),
           right_margin_position = geo_list (transform_to_geolocation m rmp),
           next_waypoints_ids = next_ids,
           left_lane_waypoint_id = left_id,
           right_lane_waypoint_id = right_id\<rparr>)))))))))))"

fun index_loop ::
  "carla_map \<Rightarrow> map_dict \<Rightarrow> int \<Rightarrow> int \<Rightarrow> lane \<Rightarrow> nat list \<Rightarrow> graph \<Rightarrow> error + graph" where
  "index_loop m map_dict road_key lane_key lane [] waypoints_graph = Inr waypoints_graph"
| "index_loop m map_dict road_key lane_key lane (i # is) waypoints_graph =
     bind_err (make_waypoint_dict m map_dict road_key lane_key lane i) (\<lambda>(k, d).
       index_loop m map_dict road_key lane_key lane is (AList.update k d waypoints_graph))"

fun lane_loop :: "carla_map \<Rightarrow> map_dict \<Rightarrow> int \<Rightarrow> int list \<Rightarrow> graph \<Rightarrow> error + graph" where
  "lane_loop m map_dict road_key [] waypoints_graph = Inr waypoints_graph"
| "lane_loop m map_dict road_key (lane_key # lane_keys) waypoints_graph =
     bind_err (getitem map_dict road_key) (\<lambda>group.
     bind_err (getitem group lane_key) (\<lambda>lane.
     bind_err (index_loop m map_dict road_key lane_key lane [0..<length (waypoints lane)]
                 waypoints_graph)
       (lane_loop m map_dict road_key lane_keys)))"

fun road_loop :: "carla_map \<Rightarrow> map_dict \<Rightarrow> int list \<Rightarrow> graph \<Rightarrow> error + graph" where
  "road_loop m map_dict [] waypoints_graph = Inr waypoints_graph"
| "road_loop m map_dict (road_key # road_keys) waypoints_graph =
     bind_err (getitem map_dict road_key) (\<lambda>group.
     bind_err (lane_loop m map_dict road_key (map fst group) waypoints_graph)
       (road_loop m map_dict road_keys))"

definition assemble :: "carla_map \<Rightarrow> map_dict \<Rightarrow> error + graph" where
  "assemble m map_dict = road_loop m map_dict (map fst map_dict) []"

definition get_scene_layout ::
  "(transform \<Rightarrow> location) \<Rightarrow> carla_map \<Rightarrow> (error + graph) option" where
  "get_scene_layout gfv carla_map =
     (case build_map_dict gfv carla_map of
        None \<Rightarrow> None
      | Some (Inl e) \<Rightarrow> Some (Inl e)
      | Some (Inr map_dict) \<Rightarrow> Some (assemble carla_map map_dict))"

section \<open>Trigger volumes of stop signs and traffic lights\<close>

record bounding_box =
  bb_location :: location
  extent :: location

record actor =
  id_a :: int
  type_id :: string
  get_transform :: transform
  trigger_volume :: bounding_box
  state :: int

text \<open>
  \<^verbatim>\<open>_get_trigger_volume\<close>. \<^verbatim>\<open>t.transform(corners)\<close> replaces every point of the list by its
  image; the five points are five objects, so each is replaced once. The image of one point
  is an answer of the API and is the parameter \<open>transform_point\<close>.
\<close>

definition get_trigger_volume ::
  "(transform \<Rightarrow> location \<Rightarrow> location) \<Rightarrow> carla_map \<Rightarrow> actor \<Rightarrow> geolocation list" where
  "get_trigger_volume transform_point carla_map actor =
     (let bb = extent (trigger_volume actor);
          corners0 =
            [Location_xy (- loc_x bb) (- loc_y bb), Location_xy (loc_x bb) (- loc_y bb),
             Location_xy (loc_x bb) (loc_y bb), Location_xy (- loc_x bb) (loc_y bb),
             Location_xy (- loc_x bb) (- loc_y bb)];
          corners1 = map (\<lambda>x. add_loc x (bb_location (trigger_volume actor))) corners0;
          t = get_transform actor;
          corners2 = map (transform_point t) corners1
      in map (transform_to_geolocation carla_map) corners2)"

record stop_dict =
  st_id :: int
  st_position :: "real list"
  st_trigger_volume :: "real list list"

record traffic_light_dict =
  tl_id :: int
  tl_state :: int
  tl_position :: "real list"
  tl_trigger_volume :: "real list list"

definition get_stop_signals ::
  "(transform \<Rightarrow> location \<Rightarrow> location) \<Rightarrow> carla_map \<Rightarrow> actor list \<Rightarrow> (int \<times> stop_dict) list" where
  "get_stop_signals transform_point carla_map stops =
     fold (\<lambda>stop stop_signals_dict.
        let st_transform = get_transform stop;
            location_gnss = transform_to_geolocation carla_map (location st_transform);
            st_dict =
              \<lparr>st_id = id_a stop,
               st_position = geo_list location_gnss,
               st_trigger_volume =
                 map (\<lambda>v. [longitude v, latitude v, altitude v])
                   (get_trigger_volume transform_point carla_map stop)\<rparr>
        in AList.update (id_a stop) st_dict stop_signals_dict) stops []"

definition get_traffic_lights ::
  "(transform \<Rightarrow> location \<Rightarrow> location) \<Rightarrow> carla_map \<Rightarrow> actor list
    \<Rightarrow> (int \<times> traffic_light_dict) list" where
  "get_traffic_lights transform_point carla_map traffic_lights =
     fold (\<lambda>traffic_light traffic_lights_dict.
        let tl_transform = get_transform traffic_light;
            location_gnss = transform_to_geolocation carla_map (location tl_transform);
            tl_dict =
              \<lparr>tl_id = id_a traffic_light,
               tl_state = state traffic_light,
               tl_position = geo_list location_gnss,
               tl_trigger_volume =
                 map (\<lambda>v. [longitude v, latitude v, altitude v])
                   (get_trigger_volume transform_point carla_map traffic_light)\<rparr>
        in AList.update (id_a traffic_light) tl_dict traffic_lights_dict) traffic_lights []"

section \<open>Specification-side notions\<close>

text \<open>
  The walk of the sampler in the words of the specification: \<open>follows m seed nxt ws\<close> says
  that, \<open>nxt\<close> being the answer of the last query, \<open>ws\<close> are the waypoints appended from
  there on: each is the first candidate of the query before it and lies on the seed's
  road, and the query after the last one is empty or leaves the road.
\<close>

fun follows :: "carla_map \<Rightarrow> waypoint \<Rightarrow> waypoint list \<Rightarrow> waypoint list \<Rightarrow> bool" where
  "follows m seed nxt [] = (nxt = [] \<or> road_id (hd nxt) \<noteq> road_id seed)"
| "follows m seed nxt (w # ws) =
     (nxt \<noteq> [] \<and> hd nxt = w \<and> road_id w = road_id seed \<and>
      follows m seed (next_w m w precision) ws)"

text \<open>The identities of all waypoints held by the road groups, in iteration order.\<close>

definition lane_ids :: "map_dict \<Rightarrow> int list" where
  "lane_ids map_dict =
     concat (map (\<lambda>(road_key, group).
       concat (map (\<lambda>(lane_key, lane). map id_w (waypoints lane)) group)) map_dict)"

text \<open>
  The neighbour reference of the specification: the identity of the element at index \<open>i\<close>
  of the neighbour lane when that lane is in the road group and has such an element, the
  sentinel \<open>-1\<close> otherwise.
\<close>

definition neighbor_id :: "road_group \<Rightarrow> int \<Rightarrow> nat \<Rightarrow> int" where
  "neighbor_id grp key i =
     (case map_of grp key of
        None \<Rightarrow> - 1
      | Some neighbor \<Rightarrow>
          if i < length (waypoints neighbor) then id_w (waypoints neighbor ! i) else - 1)"

text \<open>The Node Record of the specification for index \<open>i\<close> of a lane, with its key.\<close>

definition node_entry ::
  "carla_map \<Rightarrow> road_group \<Rightarrow> int \<Rightarrow> int \<Rightarrow> lane \<Rightarrow> nat \<Rightarrow> int \<times> waypoint_dict" where
  "node_entry m grp road_key lane_key lane i =
     (let w = waypoints lane ! i in
      (id_w w,
       \<lparr>road_id_n = road_key,
        lane_id_n = lane_key,
        position = geo_list (transform_to_geolocation m (location (transform w))),
        orientation =
          [roll (rotation (transform w)), pitch (rotation (transform w)),
           yaw (rotation (transform w))],
        left_margin_position = geo_list (transform_to_geolocation m (left_marking lane ! i)),
        right_margin_position = geo_list (transform_to_geolocation m (right_marking lane ! i)),
        next_waypoints_ids = map id_w (drop (i + 1) (waypoints lane)),
        left_lane_waypoint_id = neighbor_id grp (left_lane_key lane_key) i,
        right_lane_waypoint_id = neighbor_id grp (right_lane_key lane_key) i\<rparr>))"

text \<open>All Node Records in the order in which the assembler emits them.\<close>

definition emissions :: "carla_map \<Rightarrow> map_dict \<Rightarrow> (int \<times> waypoint_dict) list" where
  "emissions m map_dict =
     concat (map (\<lambda>(road_key, group).
       concat (map (\<lambda>(lane_key, lane).
         map (node_entry m group road_key lane_key lane) [0..<length (waypoints lane)])
         group)) map_dict)"

text \<open>
  The invariant of the dictionary of road groups: keys occur once, and the three lists of
  every lane record have the same length.
\<close>

definition aligned :: "lane \<Rightarrow> bool" where
  "aligned l \<longleftrightarrow>
     length (left_marking l) = length (waypoints l) \<and>
     length (right_marking l) = length (waypoints l)"

definition well_formed :: "map_dict \<Rightarrow> bool" where
  "well_formed map_dict \<longleftrightarrow>
     distinct (map fst map_dict) \<and>
     list_all (\<lambda>(road_key, group).
       distinct (map fst group) \<and> list_all (\<lambda>(lane_key, l). aligned l) group) map_dict"

text \<open>Storing a sequence of keyed records into a dictionary, one assignment after another.\<close>

definition stored :: "(int \<times> waypoint_dict) list \<Rightarrow> graph \<Rightarrow> graph" where
  "stored es g = fold (\<lambda>(k, d). AList.update k d) es g"

text \<open>
  The entry that closes the polygon of a trigger volume: the local corner \<open>(-x, -y)\<close> of the
  volume, moved to the volume's place, to the actor's frame and to geodetic coordinates, as
  longitude, latitude and altitude.
\<close>

definition projected_corner ::
  "(transform \<Rightarrow> location \<Rightarrow> location) \<Rightarrow> carla_map \<Rightarrow> actor \<Rightarrow> real list" where
  "projected_corner transform_point carla_map a =
     (let bb = extent (trigger_volume a);
          v = transform_to_geolocation carla_map
                (transform_point (get_transform a)
                   (add_loc (Location_xy (- loc_x bb) (- loc_y bb))
                      (bb_location (trigger_volume a))))
      in [longitude v, latitude v, altitude v])"

section \<open>Test maps\<close>

definition wp :: "int \<Rightarrow> int \<Rightarrow> int \<Rightarrow> real \<Rightarrow> waypoint" where
  "wp i r l h =
     \<lparr>id_w = i, road_id = r, lane_id = l, lane_width = 4,
      transform = \<lparr>location = \<lparr>loc_x = 0, loc_y = 0, loc_z = h\<rparr>,
                   rotation = \<lparr>pitch = 0, yaw = 0, roll = 0\<rparr>\<rparr>\<rparr>"

definition forward_y :: "transform \<Rightarrow> location" where
  "forward_y t = \<lparr>loc_x = 0, loc_y = yaw (rotation t) / 90, loc_z = 0\<rparr>"

definition plain_geo :: "location \<Rightarrow> geolocation" where
  "plain_geo p = \<lparr>latitude = loc_y p, longitude = loc_x p, altitude = loc_z p\<rparr>"

text \<open>
  Road 7 with the lanes 1 and 2, two waypoints each. Lane 1 runs into road 8; lane 2 ends.
\<close>

definition two_lane_map :: carla_map where
  "two_lane_map =
     \<lparr>get_topology = [(wp 10 7 1 0, wp 12 8 1 0), (wp 20 7 2 0, wp 21 7 2 0)],
      next_w = (\<lambda>w d.
         if id_w w = 10 then [wp 11 7 1 0]
         else if id_w w = 11 then [wp 12 8 1 0]
         else if id_w w = 20 then [wp 21 7 2 0]
         else []),
      transform_to_geolocation = plain_geo\<rparr>"

text \<open>
  Road 1 whose lanes \<open>-2\<close> and \<open>-1\<close> merge: the walks from both seeds continue with the
  same waypoint 5.
\<close>

definition merge_map :: carla_map where
  "merge_map =
     \<lparr>get_topology = [(wp 2 1 (- 2) 0, wp 5 1 (- 1) 0), (wp 1 1 (- 1) 0, wp 5 1 (- 1) 0)],
      next_w = (\<lambda>w d. if id_w w = 1 \<or> id_w w = 2 then [wp 5 1 (- 1) 0] else []),
      transform_to_geolocation = plain_geo\<rparr>"

text \<open>
  Road 1 with two lane sections, both with a lane 1 at the same elevation: the same two
  topology entries in either order.
\<close>

definition sections_map :: "bool \<Rightarrow> carla_map" where
  "sections_map swapped =
     \<lparr>get_topology =
        (if swapped then [(wp 2 1 1 0, wp 2 1 1 0), (wp 1 1 1 0, wp 1 1 1 0)]
         else [(wp 1 1 1 0, wp 1 1 1 0), (wp 2 1 1 0, wp 2 1 1 0)]),
      next_w = (\<lambda>w d. []),
      transform_to_geolocation = plain_geo\<rparr>"

definition two_lane_dict :: map_dict where
  "two_lane_dict =
     [(7, [(1, build_lane forward_y [wp 10 7 1 0, wp 11 7 1 0]),
           (2, build_lane forward_y [wp 20 7 2 0, wp 21 7 2 0])])]"

definition plain_node :: "int \<Rightarrow> int \<Rightarrow> int list \<Rightarrow> int \<Rightarrow> int \<Rightarrow> waypoint_dict" where
  "plain_node r l nx lf rt =
     \<lparr>road_id_n = r, lane_id_n = l, position = [0, 0, 0], orientation = [0, 0, 0],
      left_margin_position = [- 2, 0, 0], right_margin_position = [2, 0, 0],
      next_waypoints_ids = nx, left_lane_waypoint_id = lf, right_lane_waypoint_id = rt\<rparr>"

definition two_lane_graph :: graph where
  "two_lane_graph =
     [(10, plain_node 7 1 [11] (- 1) 20), (11, plain_node 7 1 [] (- 1) 21),
      (20, plain_node 7 2 [21] 10 (- 1)), (21, plain_node 7 2 [] 11 (- 1))]"

definition merge_graph :: graph where
  "merge_graph =
     [(2, plain_node 1 (- 2) [5] (- 1) 1), (5, plain_node 1 (- 1) [] 5 (- 1)),
      (1, plain_node 1 (- 1) [5] 2 (- 1))]"

definition sign :: actor where
  "sign =
     \<lparr>id_a = 3, type_id = ''traffic.stop'',
      get_transform = \<lparr>location = \<lparr>loc_x = 1, loc_y = 2, loc_z = 0\<rparr>,
                       rotation = \<lparr>pitch = 0, yaw = 0, roll = 0\<rparr>\<rparr>,
      trigger_volume = \<lparr>bb_location = \<lparr>loc_x = 5, loc_y = 0, loc_z = 0\<rparr>,
                        extent = \<lparr>loc_x = 1, loc_y = 2, loc_z = 1\<rparr>\<rparr>,
      state = 0\<rparr>"

definition translate :: "transform \<Rightarrow> location \<Rightarrow> location" where
  "translate t p = add_loc p (location t)"

section \<open>The sampler\<close>

lemma sample_loop_complete:
  "follows m seed nxt suf \<Longrightarrow> sample_loop m seed acc nxt = Some (acc @ suf)"
proof (induction suf arbitrary: acc nxt)
  case Nil
  then show ?case by (subst sample_loop.simps) auto
next
  case (Cons w suf)
  from Cons.prems have n: "nxt \<noteq> []" "hd nxt = w" "road_id w = road_id seed"
    and f: "follows m seed (next_w m w precision) suf" by simp_all
  have "sample_loop m seed acc nxt = sample_loop m seed (acc @ [w]) (next_w m w precision)"
    by (subst sample_loop.simps) (simp add: n)
  also have "\<dots> = Some ((acc @ [w]) @ suf)" by (rule Cons.IH [OF f])
  finally show ?case by simp
qed

lemma sample_loop_sound:
  assumes "sample_loop m seed acc nxt = Some ws"
  shows "\<exists>suf. ws = acc @ suf \<and> follows m seed nxt suf"
proof (rule sample_loop.raw_induct
    [where P = "\<lambda>m seed acc nxt ws. \<exists>suf. ws = acc @ suf \<and> follows m seed nxt suf", OF _ assms])
  fix loop m seed acc nxt ws
  assume IH: "\<And>m seed acc nxt ws. loop m seed acc nxt = Some ws \<Longrightarrow>
      \<exists>suf. ws = acc @ suf \<and> follows m seed nxt suf"
    and eq: "(if nxt \<noteq> [] \<and> road_id (hd nxt) = road_id seed
      then loop m seed (acc @ [hd nxt]) (next_w m (hd nxt) precision)
      else Some acc) = Some ws"
  show "\<exists>suf. ws = acc @ suf \<and> follows m seed nxt suf"
  proof (cases "nxt \<noteq> [] \<and> road_id (hd nxt) = road_id seed")
    case True
    with eq have "loop m seed (acc @ [hd nxt]) (next_w m (hd nxt) precision) = Some ws" by simp
    from IH [OF this] obtain suf where
      "ws = (acc @ [hd nxt]) @ suf" "follows m seed (next_w m (hd nxt) precision) suf" by blast
    with True have "ws = acc @ (hd nxt # suf) \<and> follows m seed nxt (hd nxt # suf)" by simp
    then show ?thesis by blast
  next
    case False
    with eq have "ws = acc" by (auto split: if_splits)
    with False have "ws = acc @ [] \<and> follows m seed nxt []" by auto
    then show ?thesis by blast
  qed
qed

lemma follows_road_id: "follows m seed nxt suf \<Longrightarrow> w \<in> set suf \<Longrightarrow> road_id w = road_id seed"
  by (induction suf arbitrary: nxt) auto

lemma follows_index:
  "follows m seed (next_w m w precision) suf \<longleftrightarrow>
     (\<forall>i. Suc i < length (w # suf) \<longrightarrow>
        next_w m ((w # suf) ! i) precision \<noteq> [] \<and>
        (w # suf) ! Suc i = hd (next_w m ((w # suf) ! i) precision) \<and>
        road_id ((w # suf) ! Suc i) = road_id seed) \<and>
     (next_w m (last (w # suf)) precision = [] \<or>
      road_id (hd (next_w m (last (w # suf)) precision)) \<noteq> road_id seed)"
proof (induction suf arbitrary: w)
  case Nil
  show ?case by simp
next
  case (Cons v suf)
  let ?P = "\<lambda>xs i. next_w m (xs ! i) precision \<noteq> [] \<and>
        xs ! Suc i = hd (next_w m (xs ! i) precision) \<and> road_id (xs ! Suc i) = road_id seed"
  have split: "(\<forall>i. Suc i < length (w # v # suf) \<longrightarrow> ?P (w # v # suf) i) \<longleftrightarrow>
      ?P (w # v # suf) 0 \<and> (\<forall>i. Suc i < length (v # suf) \<longrightarrow> ?P (v # suf) i)"
    (is "?L \<longleftrightarrow> ?R")
  proof
    assume l: ?L
    have "?P (w # v # suf) 0" using l [rule_format, of 0] by auto
    moreover have "\<forall>i. Suc i < length (v # suf) \<longrightarrow> ?P (v # suf) i"
    proof (intro allI impI)
      fix i assume "Suc i < length (v # suf)"
      then have "Suc (Suc i) < length (w # v # suf)" by auto
      from l [rule_format, OF this] show "?P (v # suf) i" by auto
    qed
    ultimately show ?R by blast
  next
    assume r: ?R
    show ?L
    proof (intro allI impI)
      fix i assume i: "Suc i < length (w # v # suf)"
      show "?P (w # v # suf) i"
      proof (cases i)
        case 0 with r show ?thesis by auto
      next
        case (Suc j)
        with i have "Suc j < length (v # suf)" by auto
        with r have "?P (v # suf) j" by blast
        with Suc show ?thesis by auto
      qed
    qed
  qed
  have "follows m seed (next_w m w precision) (v # suf) \<longleftrightarrow>
      ?P (w # v # suf) 0 \<and> follows m seed (next_w m v precision) suf"
    by auto
  also have "\<dots> \<longleftrightarrow> ?P (w # v # suf) 0 \<and>
      (\<forall>i. Suc i < length (v # suf) \<longrightarrow> ?P (v # suf) i) \<and>
      (next_w m (last (v # suf)) precision = [] \<or>
       road_id (hd (next_w m (last (v # suf)) precision)) \<noteq> road_id seed)"
    by (simp only: Cons.IH [of v])
  finally show ?case
    unfolding split by (simp del: length_Cons nth_Cons_Suc nth_Cons_0)
qed

lemma sample_lane_follows:
  "sample_lane m seed = Some ws \<longleftrightarrow>
     (\<exists>suf. ws = seed # suf \<and> follows m seed (next_w m seed precision) suf)"
proof
  assume "sample_lane m seed = Some ws"
  then have "sample_loop m seed [seed] (next_w m seed precision) = Some ws"
    by (simp add: sample_lane_def)
  from sample_loop_sound [OF this] show
    "\<exists>suf. ws = seed # suf \<and> follows m seed (next_w m seed precision) suf" by simp
next
  assume "\<exists>suf. ws = seed # suf \<and> follows m seed (next_w m seed precision) suf"
  then obtain suf where ws: "ws = seed # suf"
    and f: "follows m seed (next_w m seed precision) suf" by blast
  from sample_loop_complete [OF f, of "[seed]"] ws show "sample_lane m seed = Some ws"
    by (simp add: sample_lane_def)
qed

lemma sample_lane_nonempty: "sample_lane m seed = Some ws \<Longrightarrow> ws \<noteq> []"
  by (auto simp: sample_lane_follows)

text \<open>
  C1. The sampler returns exactly the walk of the specification: the sequence starts with
  the seed, every further element is the first candidate of the query at step
  \<open>precision = 0.05\<close> from the element before it and lies on the seed's road, and the
  query from the last element is empty or leaves the road; whenever such a finite walk
  exists the sampler returns it. Hence every element has the seed's road identity, and a
  seed whose first query is empty or leaves the road yields the sequence of length 1.
\<close>

theorem sample_lane_walk:
  "(sample_lane m seed = Some ws \<longleftrightarrow>
      ws \<noteq> [] \<and> hd ws = seed \<and>
      (\<forall>i. Suc i < length ws \<longrightarrow>
         next_w m (ws ! i) precision \<noteq> [] \<and>
         ws ! Suc i = hd (next_w m (ws ! i) precision) \<and>
         road_id (ws ! Suc i) = road_id seed) \<and>
      (next_w m (last ws) precision = [] \<or>
       road_id (hd (next_w m (last ws) precision)) \<noteq> road_id seed)) \<and>
   (sample_lane m seed = Some ws \<longrightarrow> (\<forall>w \<in> set ws. road_id w = road_id seed)) \<and>
   (next_w m seed precision = [] \<or> road_id (hd (next_w m seed precision)) \<noteq> road_id seed
      \<longrightarrow> sample_lane m seed = Some [seed]) \<and>
   precision = 0.05"
proof (intro conjI)
  show "sample_lane m seed = Some ws \<longleftrightarrow>
      ws \<noteq> [] \<and> hd ws = seed \<and>
      (\<forall>i. Suc i < length ws \<longrightarrow>
         next_w m (ws ! i) precision \<noteq> [] \<and>
         ws ! Suc i = hd (next_w m (ws ! i) precision) \<and>
         road_id (ws ! Suc i) = road_id seed) \<and>
      (next_w m (last ws) precision = [] \<or>
       road_id (hd (next_w m (last ws) precision)) \<noteq> road_id seed)"
  proof (cases ws)
    case Nil
    then show ?thesis by (simp add: sample_lane_follows)
  next
    case (Cons v suf)
    show ?thesis
    proof (cases "v = seed")
      case True
      have "sample_lane m seed = Some (seed # suf) \<longleftrightarrow>
          follows m seed (next_w m seed precision) suf"
        by (simp add: sample_lane_follows)
      then show ?thesis
        unfolding Cons True follows_index by simp
    next
      case False
      with Cons show ?thesis by (simp add: sample_lane_follows)
    qed
  qed
  show "sample_lane m seed = Some ws \<longrightarrow> (\<forall>w \<in> set ws. road_id w = road_id seed)"
    by (auto simp: sample_lane_follows dest: follows_road_id)
  show "next_w m seed precision = [] \<or> road_id (hd (next_w m seed precision)) \<noteq> road_id seed
      \<longrightarrow> sample_lane m seed = Some [seed]"
    by (simp add: sample_lane_follows)
  show "precision = 0.05" by (simp add: precision_def)
qed

theorem sample_lane_walk_witness:
  "sample_lane two_lane_map (wp 10 7 1 0) = Some [wp 10 7 1 0, wp 11 7 1 0] \<and>
   road_id (wp 11 7 1 0) = road_id (wp 10 7 1 0) \<and>
   sample_lane two_lane_map (wp 21 7 2 0) = Some [wp 21 7 2 0]"
proof -
  let ?ws = "[wp 10 7 1 0, wp 11 7 1 0]"
  have walk: "?ws \<noteq> [] \<and> hd ?ws = wp 10 7 1 0 \<and>
      (\<forall>i. Suc i < length ?ws \<longrightarrow>
         next_w two_lane_map (?ws ! i) precision \<noteq> [] \<and>
         ?ws ! Suc i = hd (next_w two_lane_map (?ws ! i) precision) \<and>
         road_id (?ws ! Suc i) = road_id (wp 10 7 1 0)) \<and>
      (next_w two_lane_map (last ?ws) precision = [] \<or>
       road_id (hd (next_w two_lane_map (last ?ws) precision)) \<noteq> road_id (wp 10 7 1 0))"
    by (simp add: two_lane_map_def wp_def)
  have stop: "next_w two_lane_map (wp 21 7 2 0) precision = [] \<or>
      road_id (hd (next_w two_lane_map (wp 21 7 2 0) precision)) \<noteq> road_id (wp 21 7 2 0)"
    by (simp add: two_lane_map_def wp_def)
  from sample_lane_walk [of two_lane_map "wp 10 7 1 0" ?ws] walk
  have 1: "sample_lane two_lane_map (wp 10 7 1 0) = Some ?ws" by blast
  with sample_lane_walk [of two_lane_map "wp 10 7 1 0" ?ws]
  have 2: "\<forall>w \<in> set ?ws. road_id w = road_id (wp 10 7 1 0)" by blast
  from sample_lane_walk [of two_lane_map "wp 21 7 2 0" "[]"] stop
  have 3: "sample_lane two_lane_map (wp 21 7 2 0) = Some [wp 21 7 2 0]" by blast
  from 2 have "road_id (wp 11 7 1 0) = road_id (wp 10 7 1 0)" by simp
  with 1 3 show ?thesis by blast
qed

section \<open>Lane identity resolution\<close>

text \<open>
  C2. The resolved left neighbour of lane \<open>L\<close> is \<open>L - 1\<close> unless that is 0, then
  \<open>L - 2\<close>; the resolved right neighbour is \<open>L + 1\<close> unless that is 0, then \<open>L + 2\<close>. In
  particular the left neighbour of 1 is \<open>-1\<close> and of \<open>-1\<close> is \<open>-2\<close>, the right neighbour
  of \<open>-1\<close> is 1 and of 2 is 3.
\<close>

theorem lane_key_resolution:
  "left_lane_key L = (if L - 1 = 0 then L - 2 else L - 1) \<and>
   right_lane_key L = (if L + 1 = 0 then L + 2 else L + 1) \<and>
   left_lane_key 1 = - 1 \<and> left_lane_key (- 1) = - 2 \<and>
   right_lane_key (- 1) = 1 \<and> right_lane_key 2 = 3"
  by (simp add: left_lane_key_def right_lane_key_def)

section \<open>Containers\<close>

lemma bind_err_Inr [simp]: "bind_err (Inr v) f = f v"
  by (simp add: bind_err_def)

lemma bind_err_Inl [simp]: "bind_err (Inl e) f = Inl e"
  by (simp add: bind_err_def)

lemma getitem_Some: "map_of d k = Some v \<Longrightarrow> getitem d k = Inr v"
  by (simp add: getitem_def)

lemma index_less: "i < length xs \<Longrightarrow> index xs i = Inr (xs ! i)"
  by (simp add: index_def)

lemma set_update_subset: "set (AList.update k v al) \<subseteq> insert (k, v) (set al)"
  by (induction al) auto

section \<open>The dictionary of road groups\<close>

lemma insert_lane_eq:
  "insert_lane md w l =
     Inr (AList.update (road_id w)
            (AList.update (lane_id w) l
               (case map_of md (road_id w) of None \<Rightarrow> [] | Some g \<Rightarrow> g)) md)"
proof (cases "map_of md (road_id w)")
  case None
  have "getitem (AList.update (road_id w) [] md) (road_id w) = Inr []"
    by (simp add: getitem_def AList.update_conv')
  with None show ?thesis by (simp add: insert_lane_def)
next
  case (Some g)
  then show ?thesis by (simp add: insert_lane_def getitem_Some)
qed

lemma insert_lane_lanes:
  assumes "insert_lane md w l = Inr md'" and "(rk, g) \<in> set md'" and "(lk, l') \<in> set g"
  shows "l' = l \<or> (\<exists>g0. (rk, g0) \<in> set md \<and> (lk, l') \<in> set g0)"
proof -
  let ?old = "case map_of md (road_id w) of None \<Rightarrow> [] | Some g \<Rightarrow> g"
  from assms(1) have md': "md' = AList.update (road_id w) (AList.update (lane_id w) l ?old) md"
    by (simp add: insert_lane_eq)
  with assms(2) set_update_subset
  have "(rk, g) = (road_id w, AList.update (lane_id w) l ?old) \<or> (rk, g) \<in> set md" by fastforce
  then show ?thesis
  proof
    assume new: "(rk, g) = (road_id w, AList.update (lane_id w) l ?old)"
    with assms(3) set_update_subset [of "lane_id w" l ?old]
    have "(lk, l') = (lane_id w, l) \<or> (lk, l') \<in> set ?old" by auto
    then show ?thesis
    proof
      assume "(lk, l') \<in> set ?old"
      then obtain g0 where "map_of md (road_id w) = Some g0" "(lk, l') \<in> set g0"
        by (cases "map_of md (road_id w)") auto
      with new have "(rk, g0) \<in> set md \<and> (lk, l') \<in> set g0" by (auto dest: map_of_SomeD)
      then show ?thesis by blast
    qed simp
  next
    assume "(rk, g) \<in> set md"
    with assms(3) show ?thesis by blast
  qed
qed

lemma aligned_build_lane: "aligned (build_lane gfv ws)"
  by (simp add: aligned_def build_lane_def)

lemma well_formed_Nil: "well_formed []"
  by (simp add: well_formed_def)

lemma well_formed_insert_lane:
  assumes wf: "well_formed md" and al: "aligned l" and ins: "insert_lane md w l = Inr md'"
  shows "well_formed md'"
proof -
  let ?old = "case map_of md (road_id w) of None \<Rightarrow> [] | Some g \<Rightarrow> g"
  let ?new = "AList.update (lane_id w) l ?old"
  from ins have md': "md' = AList.update (road_id w) ?new md" by (simp add: insert_lane_eq)
  have g0: "distinct (map fst ?old) \<and> (\<forall>(lk, l') \<in> set ?old. aligned l')"
  proof (cases "map_of md (road_id w)")
    case None
    then show ?thesis by simp
  next
    case (Some g0)
    then have "(road_id w, g0) \<in> set md" by (rule map_of_SomeD)
    with wf Some show ?thesis by (auto simp: well_formed_def list_all_iff)
  qed
  have g: "distinct (map fst ?new) \<and> (\<forall>(lk, l') \<in> set ?new. aligned l')"
  proof
    from g0 show "distinct (map fst ?new)" by (simp add: AList.distinct_update)
    show "\<forall>(lk, l') \<in> set ?new. aligned l'"
    proof (clarify)
      fix lk l' assume "(lk, l') \<in> set ?new"
      with set_update_subset [of "lane_id w" l ?old]
      have "(lk, l') = (lane_id w, l) \<or> (lk, l') \<in> set ?old" by auto
      with al g0 show "aligned l'" by auto
    qed
  qed
  have "distinct (map fst md')"
    using wf by (simp add: md' well_formed_def AList.distinct_update)
  moreover have "\<forall>(rk, g') \<in> set md'.
      distinct (map fst g') \<and> (\<forall>(lk, l') \<in> set g'. aligned l')"
  proof (clarify)
    fix rk g' assume "(rk, g') \<in> set md'"
    with set_update_subset [of "road_id w" ?new md]
    have "(rk, g') = (road_id w, ?new) \<or> (rk, g') \<in> set md" by (auto simp: md')
    then show "distinct (map fst g') \<and> (\<forall>(lk, l') \<in> set g'. aligned l')"
    proof
      assume "(rk, g') = (road_id w, ?new)"
      with g show ?thesis by simp
    next
      assume "(rk, g') \<in> set md"
      with wf show ?thesis by (auto simp: well_formed_def list_all_iff)
    qed
  qed
  ultimately show ?thesis by (auto simp: well_formed_def list_all_iff)
qed

lemma topology_loop_Cons:
  "sample_lane m seed = Some ws \<Longrightarrow> insert_lane md seed (build_lane gfv ws) = Inr md1 \<Longrightarrow>
   topology_loop gfv m (seed # seeds) md = topology_loop gfv m seeds md1"
  by simp

lemma topology_loop_step:
  assumes "topology_loop gfv m (seed # seeds) md = Some r"
  obtains ws md1 where "sample_lane m seed = Some ws"
    and "insert_lane md seed (build_lane gfv ws) = Inr md1"
    and "topology_loop gfv m seeds md1 = Some r"
proof -
  from assms obtain ws where ws: "sample_lane m seed = Some ws"
    by (cases "sample_lane m seed") auto
  obtain md1 where md1: "insert_lane md seed (build_lane gfv ws) = Inr md1"
    by (simp add: insert_lane_eq)
  with assms ws have "topology_loop gfv m seeds md1 = Some r" by simp
  with ws md1 that show thesis by blast
qed

lemma topology_loop_no_error: "topology_loop gfv m seeds md \<noteq> Some (Inl e)"
proof (induction seeds arbitrary: md)
  case Nil
  show ?case by simp
next
  case (Cons seed seeds)
  show ?case
  proof
    assume "topology_loop gfv m (seed # seeds) md = Some (Inl e)"
    then obtain md1 where "topology_loop gfv m seeds md1 = Some (Inl e)"
      by (rule topology_loop_step)
    with Cons.IH show False by blast
  qed
qed

lemma topology_loop_returns:
  "(\<forall>seed \<in> set seeds. sample_lane m seed \<noteq> None) \<longleftrightarrow>
     (\<exists>md'. topology_loop gfv m seeds md = Some (Inr md'))"
proof (induction seeds arbitrary: md)
  case Nil
  show ?case by simp
next
  case (Cons seed seeds)
  show ?case
  proof (cases "sample_lane m seed")
    case None
    then show ?thesis by simp
  next
    case (Some ws)
    obtain md1 where md1: "insert_lane md seed (build_lane gfv ws) = Inr md1"
      by (simp add: insert_lane_eq)
    from Cons.IH [of md1] Some show ?thesis
      by (simp add: topology_loop_Cons [OF Some md1] del: topology_loop.simps)
  qed
qed

lemma topology_loop_well_formed:
  "well_formed md \<Longrightarrow> topology_loop gfv m seeds md = Some (Inr md') \<Longrightarrow> well_formed md'"
proof (induction seeds arbitrary: md)
  case Nil
  then show ?case by simp
next
  case (Cons seed seeds)
  from Cons.prems(2) obtain ws md1 where "sample_lane m seed = Some ws"
    and ins: "insert_lane md seed (build_lane gfv ws) = Inr md1"
    and rest: "topology_loop gfv m seeds md1 = Some (Inr md')"
    by (rule topology_loop_step)
  from well_formed_insert_lane [OF Cons.prems(1) aligned_build_lane ins]
  have "well_formed md1" .
  from Cons.IH [OF this rest] show ?case .
qed

lemma topology_loop_lanes:
  assumes "topology_loop gfv m seeds md = Some (Inr md')"
    and "(rk, g) \<in> set md'" and "(lk, l) \<in> set g"
  shows "(\<exists>seed \<in> set seeds. \<exists>ws. sample_lane m seed = Some ws \<and> l = build_lane gfv ws) \<or>
         (\<exists>g0. (rk, g0) \<in> set md \<and> (lk, l) \<in> set g0)"
  using assms
proof (induction seeds arbitrary: md)
  case Nil
  then show ?case by auto
next
  case (Cons seed seeds)
  from Cons.prems(1) obtain ws md1 where ws: "sample_lane m seed = Some ws"
    and ins: "insert_lane md seed (build_lane gfv ws) = Inr md1"
    and rest: "topology_loop gfv m seeds md1 = Some (Inr md')"
    by (rule topology_loop_step)
  from Cons.IH [OF rest Cons.prems(2,3)]
  show ?case
  proof
    assume "\<exists>seed \<in> set seeds. \<exists>ws. sample_lane m seed = Some ws \<and> l = build_lane gfv ws"
    then show ?thesis by auto
  next
    assume "\<exists>g0. (rk, g0) \<in> set md1 \<and> (lk, l) \<in> set g0"
    then obtain g0 where "(rk, g0) \<in> set md1" "(lk, l) \<in> set g0" by blast
    from insert_lane_lanes [OF ins this]
    show ?thesis using ws by auto
  qed
qed

lemma build_map_dict_lanes:
  assumes "build_map_dict gfv m = Some (Inr md)" and "(rk, g) \<in> set md" and "(lk, l) \<in> set g"
  shows "\<exists>seed \<in> set (sorted_topology m). \<exists>ws. sample_lane m seed = Some ws \<and> l = build_lane gfv ws"
  using topology_loop_lanes [of gfv m "sorted_topology m" "[]" md rk g lk l] assms
  by (simp add: build_map_dict_def)

lemma build_map_dict_well_formed: "build_map_dict gfv m = Some (Inr md) \<Longrightarrow> well_formed md"
  using topology_loop_well_formed [OF well_formed_Nil] by (simp add: build_map_dict_def)

section \<open>The assembler\<close>

lemma lane_waypoint_id_eq:
  "map_of md rk = Some g \<Longrightarrow> lane_waypoint_id md rk key i = Inr (neighbor_id g key i)"
  by (cases "map_of g key")
    (simp_all add: lane_waypoint_id_def neighbor_id_def getitem_def contains_def index_def)

lemma make_waypoint_dict_eq:
  assumes "map_of md rk = Some g" and "map_of g lk = Some l"
    and "i < length (waypoints l)" and "aligned l"
  shows "make_waypoint_dict m md rk lk l i = Inr (node_entry m g rk lk l i)"
  using assms
  by (simp add: make_waypoint_dict_def node_entry_def lane_waypoint_id_eq getitem_Some
      index_less aligned_def Let_def)

lemma stored_Nil [simp]: "stored [] g = g"
  by (simp add: stored_def)

lemma stored_Cons [simp]: "stored ((k, d) # es) g = stored es (AList.update k d g)"
  by (simp add: stored_def)

lemma stored_append: "stored (xs @ ys) g = stored ys (stored xs g)"
  by (simp add: stored_def)

lemma index_loop_eq:
  assumes "map_of md rk = Some g" and "map_of g lk = Some l" and "aligned l"
  shows "\<forall>i \<in> set is. i < length (waypoints l) \<Longrightarrow>
     index_loop m md rk lk l is gr = Inr (stored (map (node_entry m g rk lk l) is) gr)"
proof (induction "is" arbitrary: gr)
  case Nil
  show ?case by simp
next
  case (Cons i "is")
  then have i: "i < length (waypoints l)" and rest: "\<forall>i \<in> set is. i < length (waypoints l)"
    by simp_all
  obtain k d where kd: "node_entry m g rk lk l i = (k, d)" by (cases "node_entry m g rk lk l i")
  from make_waypoint_dict_eq [OF assms(1,2) i assms(3), of m] kd
  have "make_waypoint_dict m md rk lk l i = Inr (k, d)" by simp
  then show ?case by (simp add: kd Cons.IH [OF rest])
qed

lemma lane_loop_eq:
  assumes "map_of md rk = Some g"
  shows "\<forall>(lk, l) \<in> set es. map_of g lk = Some l \<and> aligned l \<Longrightarrow>
     lane_loop m md rk (map fst es) gr =
       Inr (stored (concat (map (\<lambda>(lk, l).
              map (node_entry m g rk lk l) [0..<length (waypoints l)]) es)) gr)"
proof (induction es arbitrary: gr)
  case Nil
  show ?case by simp
next
  case (Cons e es)
  obtain lk l where e: "e = (lk, l)" by (cases e)
  with Cons.prems have l: "map_of g lk = Some l" "aligned l"
    and rest: "\<forall>(lk, l) \<in> set es. map_of g lk = Some l \<and> aligned l" by simp_all
  have inner: "index_loop m md rk lk l [0..<length (waypoints l)] gr =
      Inr (stored (map (node_entry m g rk lk l) [0..<length (waypoints l)]) gr)"
    by (rule index_loop_eq [OF assms l]) simp
  show ?case
    by (simp add: e getitem_Some [OF assms] getitem_Some [OF l(1)] inner Cons.IH [OF rest]
        stored_append)
qed

lemma road_loop_eq:
  "\<forall>(rk, g) \<in> set es. map_of md rk = Some g \<and> distinct (map fst g) \<and>
      (\<forall>(lk, l) \<in> set g. aligned l) \<Longrightarrow>
   road_loop m md (map fst es) gr =
     Inr (stored (concat (map (\<lambda>(rk, g). concat (map (\<lambda>(lk, l).
            map (node_entry m g rk lk l) [0..<length (waypoints l)]) g)) es)) gr)"
proof (induction es arbitrary: gr)
  case Nil
  show ?case by simp
next
  case (Cons e es)
  obtain rk g where e: "e = (rk, g)" by (cases e)
  with Cons.prems have g: "map_of md rk = Some g" "distinct (map fst g)"
      "\<forall>(lk, l) \<in> set g. aligned l"
    and rest: "\<forall>(rk, g) \<in> set es. map_of md rk = Some g \<and> distinct (map fst g) \<and>
      (\<forall>(lk, l) \<in> set g. aligned l)" by simp_all
  from g(2,3) have "\<forall>(lk, l) \<in> set g. map_of g lk = Some l \<and> aligned l" by auto
  from lane_loop_eq [OF g(1) this, of m gr]
  have inner: "lane_loop m md rk (map fst g) gr =
      Inr (stored (concat (map (\<lambda>(lk, l).
             map (node_entry m g rk lk l) [0..<length (waypoints l)]) g)) gr)" .
  show ?case
    by (simp add: e getitem_Some [OF g(1)] inner Cons.IH [OF rest] stored_append)
qed

lemma assemble_eq:
  assumes "well_formed md"
  shows "assemble m md = Inr (stored (emissions m md) [])"
proof -
  from assms have "\<forall>(rk, g) \<in> set md. map_of md rk = Some g \<and> distinct (map fst g) \<and>
      (\<forall>(lk, l) \<in> set g. aligned l)"
    by (auto simp: well_formed_def list_all_iff)
  from road_loop_eq [OF this, of m "[]"] show ?thesis
    by (simp add: assemble_def emissions_def)
qed

lemma get_scene_layout_eq:
  assumes "build_map_dict gfv m = Some (Inr md)"
  shows "get_scene_layout gfv m = Some (Inr (stored (emissions m md) []))"
  using assms assemble_eq [OF build_map_dict_well_formed [OF assms]]
  by (simp add: get_scene_layout_def)

lemma get_scene_layout_cases:
  "get_scene_layout gfv m = None \<and> build_map_dict gfv m = None \<or>
   (\<exists>md. build_map_dict gfv m = Some (Inr md) \<and>
      get_scene_layout gfv m = Some (Inr (stored (emissions m md) [])))"
proof (cases "build_map_dict gfv m")
  case None
  then show ?thesis by (simp add: get_scene_layout_def)
next
  case (Some r)
  then obtain md where "build_map_dict gfv m = Some (Inr md)"
    using topology_loop_no_error [of gfv m "sorted_topology m" "[]"]
    by (cases r) (auto simp: build_map_dict_def)
  with get_scene_layout_eq [OF this] show ?thesis by blast
qed

lemma get_scene_layout_no_error: "get_scene_layout gfv m \<noteq> Some (Inl e)"
  using get_scene_layout_cases [of gfv m] by auto

lemma get_scene_layout_returns:
  "(\<forall>seed \<in> set (sorted_topology m). sample_lane m seed \<noteq> None) \<longleftrightarrow>
     (\<exists>gr. get_scene_layout gfv m = Some (Inr gr))"
  using get_scene_layout_cases [of gfv m]
    topology_loop_returns [of "sorted_topology m" m gfv "[]"]
  by (auto simp: build_map_dict_def)

lemma emissions_iff:
  "(k, nd) \<in> set (emissions m md) \<longleftrightarrow>
     (\<exists>rk g lk l i. (rk, g) \<in> set md \<and> (lk, l) \<in> set g \<and> i < length (waypoints l) \<and>
        (k, nd) = node_entry m g rk lk l i)"
  by (fastforce simp: emissions_def)

lemma fst_node_entry: "fst (node_entry m g rk lk l i) = id_w (waypoints l ! i)"
  by (simp add: node_entry_def Let_def)

lemma map_fst_node_entry:
  "map fst (map (node_entry m g rk lk l) [0..<length (waypoints l)]) = map id_w (waypoints l)"
proof -
  have "map fst (map (node_entry m g rk lk l) [0..<length (waypoints l)]) =
      map id_w (map ((!) (waypoints l)) [0..<length (waypoints l)])"
    by (simp add: fst_node_entry)
  then show ?thesis by (simp only: map_nth)
qed

lemma map_fst_emissions: "map fst (emissions m md) = lane_ids md"
proof -
  have inner: "map fst (concat (map (\<lambda>(lk, l).
        map (node_entry m g rk lk l) [0..<length (waypoints l)]) g')) =
      concat (map (\<lambda>(lk, l). map id_w (waypoints l)) g')" for g rk g'
    by (induction g') (auto simp: map_fst_node_entry simp del: map_map)
  show ?thesis
    unfolding emissions_def lane_ids_def
    by (induction md) (auto simp: inner simp del: map_map)
qed

lemma stored_other: "k \<notin> fst ` set es \<Longrightarrow> map_of (stored es g) k = map_of g k"
  by (induction es arbitrary: g) (auto simp: AList.update_conv')

lemma stored_keys: "fst ` set (stored es g) = fst ` set es \<union> fst ` set g"
proof (induction es arbitrary: g)
  case Nil
  show ?case by simp
next
  case (Cons e es)
  obtain k' v' where e: "e = (k', v')" by (cases e)
  have "fst ` set (stored (e # es) g) = fst ` set es \<union> fst ` set (AList.update k' v' g)"
    by (simp add: e Cons.IH)
  also have "\<dots> = fst ` set es \<union> ({k'} \<union> fst ` set g)"
    by (simp only: AList.dom_update)
  also have "\<dots> = fst ` set (e # es) \<union> fst ` set g"
    by (auto simp: e)
  finally show ?case .
qed

lemma stored_SomeD:
  "map_of (stored es g) k = Some v \<Longrightarrow> (k, v) \<in> set es \<or> map_of g k = Some v"
proof (induction es arbitrary: g)
  case Nil
  then show ?case by simp
next
  case (Cons e es)
  obtain k' v' where e: "e = (k', v')" by (cases e)
  with Cons.prems have "map_of (stored es (AList.update k' v' g)) k = Some v" by simp
  from Cons.IH [OF this] show ?case
    by (auto simp: e AList.update_conv' split: if_splits)
qed

lemma stored_distinct:
  "distinct (map fst es) \<Longrightarrow> (k, v) \<in> set es \<Longrightarrow> map_of (stored es g) k = Some v"
proof (induction es arbitrary: g)
  case Nil
  then show ?case by simp
next
  case (Cons e es)
  obtain k' v' where e: "e = (k', v')" by (cases e)
  show ?case
  proof (cases "(k, v) \<in> set es")
    case True
    with Cons e show ?thesis by simp
  next
    case False
    with Cons.prems e have kv: "k' = k" "v' = v" and "k \<notin> fst ` set es" by auto
    then show ?thesis by (simp add: e stored_other AList.update_conv')
  qed
qed

section \<open>Facts about the test maps\<close>

lemma two_lane_build: "build_map_dict forward_y two_lane_map = Some (Inr two_lane_dict)"
  by code_simp

lemma two_lane_group:
  "map_of two_lane_dict 7 =
     Some [(1, build_lane forward_y [wp 10 7 1 0, wp 11 7 1 0]),
           (2, build_lane forward_y [wp 20 7 2 0, wp 21 7 2 0])]"
  by (simp add: two_lane_dict_def)

section \<open>Lane records\<close>

lemma snd_lateral_shift:
  "snd (lateral_shift gfv t s) =
     add_loc (location t)
       (scale_vec s (gfv (t\<lparr>rotation := (rotation t)\<lparr>yaw := yaw (rotation t) + 90\<rparr>\<rparr>)))"
  by (simp add: lateral_shift_def Let_def)

text \<open>
  C5. In every lane record that the builder builds, and so in every lane record that it
  stores, the waypoints, the left marking and the right marking have the same length, and
  the markings at index \<open>i\<close> are the two lateral shifts of the waypoint at index \<open>i\<close>.
\<close>

theorem lane_record_aligned:
  "length (left_marking (build_lane gfv ws)) = length (waypoints (build_lane gfv ws)) \<and>
   length (right_marking (build_lane gfv ws)) = length (waypoints (build_lane gfv ws)) \<and>
   (build_map_dict gfv m = Some (Inr md) \<and> (rk, g) \<in> set md \<and> (lk, l) \<in> set g \<longrightarrow>
      length (left_marking l) = length (waypoints l) \<and>
      length (right_marking l) = length (waypoints l) \<and>
      (\<forall>i < length (waypoints l).
         left_marking l ! i =
           snd (lateral_shift gfv (transform (waypoints l ! i))
                  ((- lane_width (waypoints l ! i)) * 0.5)) \<and>
         right_marking l ! i =
           snd (lateral_shift gfv (transform (waypoints l ! i))
                  (lane_width (waypoints l ! i) * 0.5))))"
proof (intro conjI impI)
  show "length (left_marking (build_lane gfv ws)) = length (waypoints (build_lane gfv ws))"
    and "length (right_marking (build_lane gfv ws)) = length (waypoints (build_lane gfv ws))"
    by (simp_all add: build_lane_def)
next
  assume "build_map_dict gfv m = Some (Inr md) \<and> (rk, g) \<in> set md \<and> (lk, l) \<in> set g"
  then have "\<exists>seed \<in> set (sorted_topology m). \<exists>ws.
      sample_lane m seed = Some ws \<and> l = build_lane gfv ws"
    by (auto intro: build_map_dict_lanes)
  then obtain ws' where l: "l = build_lane gfv ws'" by blast
  show "length (left_marking l) = length (waypoints l)"
    and "length (right_marking l) = length (waypoints l)"
    and "\<forall>i < length (waypoints l).
         left_marking l ! i =
           snd (lateral_shift gfv (transform (waypoints l ! i))
                  ((- lane_width (waypoints l ! i)) * 0.5)) \<and>
         right_marking l ! i =
           snd (lateral_shift gfv (transform (waypoints l ! i))
                  (lane_width (waypoints l ! i) * 0.5))"
    by (simp_all add: l build_lane_def)
qed

theorem lane_record_aligned_witness:
  "length (left_marking (build_lane forward_y [wp 20 7 2 0, wp 21 7 2 0])) = 2 \<and>
   length (right_marking (build_lane forward_y [wp 20 7 2 0, wp 21 7 2 0])) = 2 \<and>
   right_marking (build_lane forward_y [wp 20 7 2 0, wp 21 7 2 0]) ! 1 =
     \<lparr>loc_x = 0, loc_y = 2, loc_z = 0\<rparr>"
proof -
  let ?g = "[(1, build_lane forward_y [wp 10 7 1 0, wp 11 7 1 0]),
             (2, build_lane forward_y [wp 20 7 2 0, wp 21 7 2 0])]"
  let ?l = "build_lane forward_y [wp 20 7 2 0, wp 21 7 2 0]"
  have g: "(7, ?g) \<in> set two_lane_dict" by (simp add: two_lane_dict_def)
  have l: "(2, ?l) \<in> set ?g" by simp
  have n: "length (waypoints ?l) = 2" by (simp add: build_lane_def)
  from lane_record_aligned [of forward_y "[]" two_lane_map two_lane_dict 7 ?g 2 ?l]
    two_lane_build g l
  have "length (left_marking ?l) = length (waypoints ?l)"
    and "length (right_marking ?l) = length (waypoints ?l)"
    and "\<forall>i < length (waypoints ?l). right_marking ?l ! i =
       snd (lateral_shift forward_y (transform (waypoints ?l ! i))
              (lane_width (waypoints ?l ! i) * 0.5))"
    by blast+
  with n have "length (left_marking ?l) = 2" "length (right_marking ?l) = 2"
    "right_marking ?l ! 1 =
       snd (lateral_shift forward_y (transform (waypoints ?l ! 1))
              (lane_width (waypoints ?l ! 1) * 0.5))"
    by simp_all
  moreover have "snd (lateral_shift forward_y (transform (waypoints ?l ! 1))
      (lane_width (waypoints ?l ! 1) * 0.5)) = \<lparr>loc_x = 0, loc_y = 2, loc_z = 0\<rparr>"
    by (simp add: build_lane_def wp_def lateral_shift_def forward_y_def add_loc_def
        scale_vec_def)
  ultimately show ?thesis by simp
qed

text \<open>
  C6. Computing the markings leaves the pose of the waypoints as it was: the waypoints of
  a stored lane record are the sampled ones, the right marking at index \<open>i\<close> is the position
  of the waypoint moved by half the lane width along the forward vector of its pose with
  90 added to the yaw once (the left marking by minus half the lane width), and the
  record emitted afterwards for the waypoint carries its position and its roll, pitch and
  yaw as sampled.
\<close>

theorem lateral_shift_leaves_pose:
  assumes "build_map_dict gfv m = Some (Inr md)" and "map_of md rk = Some g"
    and "map_of g lk = Some l" and "i < length (waypoints l)" and "w = waypoints l ! i"
  shows "(\<exists>seed \<in> set (sorted_topology m). sample_lane m seed = Some (waypoints l)) \<and>
     left_marking l ! i =
       add_loc (location (transform w))
         (scale_vec ((- lane_width w) * 0.5)
            (gfv ((transform w)\<lparr>rotation :=
                    (rotation (transform w))\<lparr>yaw := yaw (rotation (transform w)) + 90\<rparr>\<rparr>))) \<and>
     right_marking l ! i =
       add_loc (location (transform w))
         (scale_vec (lane_width w * 0.5)
            (gfv ((transform w)\<lparr>rotation :=
                    (rotation (transform w))\<lparr>yaw := yaw (rotation (transform w)) + 90\<rparr>\<rparr>))) \<and>
     (\<exists>k nd. make_waypoint_dict m md rk lk l i = Inr (k, nd) \<and>
        position nd = geo_list (transform_to_geolocation m (location (transform w))) \<and>
        orientation nd =
          [roll (rotation (transform w)), pitch (rotation (transform w)),
           yaw (rotation (transform w))])"
proof -
  from assms(2,3) have mem: "(rk, g) \<in> set md" "(lk, l) \<in> set g"
    by (auto dest: map_of_SomeD)
  from build_map_dict_lanes [OF assms(1) mem] obtain seed ws
    where seed: "seed \<in> set (sorted_topology m)" "sample_lane m seed = Some ws"
      and l: "l = build_lane gfv ws" by blast
  have ws: "waypoints l = ws" by (simp add: l build_lane_def)
  from seed ws have 1: "\<exists>seed \<in> set (sorted_topology m). sample_lane m seed = Some (waypoints l)"
    by blast
  from assms(4,5) ws have 2: "left_marking l ! i = add_loc (location (transform w))
      (scale_vec ((- lane_width w) * 0.5)
         (gfv ((transform w)\<lparr>rotation :=
                 (rotation (transform w))\<lparr>yaw := yaw (rotation (transform w)) + 90\<rparr>\<rparr>)))"
    by (simp add: l build_lane_def snd_lateral_shift)
  from assms(4,5) ws have 3: "right_marking l ! i = add_loc (location (transform w))
      (scale_vec (lane_width w * 0.5)
         (gfv ((transform w)\<lparr>rotation :=
                 (rotation (transform w))\<lparr>yaw := yaw (rotation (transform w)) + 90\<rparr>\<rparr>)))"
    by (simp add: l build_lane_def snd_lateral_shift)
  have "aligned l" by (simp add: l aligned_build_lane)
  from make_waypoint_dict_eq [OF assms(2,3,4) this, of m]
  have 4: "\<exists>k nd. make_waypoint_dict m md rk lk l i = Inr (k, nd) \<and>
        position nd = geo_list (transform_to_geolocation m (location (transform w))) \<and>
        orientation nd =
          [roll (rotation (transform w)), pitch (rotation (transform w)),
           yaw (rotation (transform w))]"
    by (simp add: node_entry_def Let_def assms(5))
  from 1 2 3 4 show ?thesis by blast
qed

theorem lateral_shift_leaves_pose_witness:
  "right_marking (build_lane forward_y [wp 20 7 2 0, wp 21 7 2 0]) ! 1 =
     \<lparr>loc_x = 0, loc_y = 2, loc_z = 0\<rparr> \<and>
   left_marking (build_lane forward_y [wp 20 7 2 0, wp 21 7 2 0]) ! 1 =
     \<lparr>loc_x = 0, loc_y = - 2, loc_z = 0\<rparr> \<and>
   (\<exists>k nd. make_waypoint_dict two_lane_map two_lane_dict 7 2
        (build_lane forward_y [wp 20 7 2 0, wp 21 7 2 0]) 1 = Inr (k, nd) \<and>
      orientation nd = [0, 0, 0])"
proof -
  let ?l = "build_lane forward_y [wp 20 7 2 0, wp 21 7 2 0]"
  let ?w = "wp 21 7 2 0"
  let ?t = "(transform ?w)\<lparr>rotation :=
      (rotation (transform ?w))\<lparr>yaw := yaw (rotation (transform ?w)) + 90\<rparr>\<rparr>"
  have l: "map_of [(1, build_lane forward_y [wp 10 7 1 0, wp 11 7 1 0]), (2, ?l)] (2::int) = Some ?l"
    by simp
  have i: "1 < length (waypoints ?l)" by (simp add: build_lane_def)
  have w: "?w = waypoints ?l ! 1" by (simp add: build_lane_def)
  from lateral_shift_leaves_pose [OF two_lane_build two_lane_group l i w]
  have right: "right_marking ?l ! 1 =
      add_loc (location (transform ?w)) (scale_vec (lane_width ?w * 0.5) (forward_y ?t))"
    and left: "left_marking ?l ! 1 =
      add_loc (location (transform ?w)) (scale_vec ((- lane_width ?w) * 0.5) (forward_y ?t))"
    and ex: "\<exists>k nd. make_waypoint_dict two_lane_map two_lane_dict 7 2 ?l 1 = Inr (k, nd) \<and>
      position nd =
        geo_list (transform_to_geolocation two_lane_map (location (transform ?w))) \<and>
      orientation nd =
        [roll (rotation (transform ?w)), pitch (rotation (transform ?w)),
         yaw (rotation (transform ?w))]"
    by blast+
  have "add_loc (location (transform ?w)) (scale_vec (lane_width ?w * 0.5) (forward_y ?t)) =
      \<lparr>loc_x = 0, loc_y = 2, loc_z = 0\<rparr>"
    by (simp add: wp_def forward_y_def add_loc_def scale_vec_def)
  with right have 1: "right_marking ?l ! 1 = \<lparr>loc_x = 0, loc_y = 2, loc_z = 0\<rparr>" by simp
  have "add_loc (location (transform ?w)) (scale_vec ((- lane_width ?w) * 0.5) (forward_y ?t)) =
      \<lparr>loc_x = 0, loc_y = - 2, loc_z = 0\<rparr>"
    by (simp add: wp_def forward_y_def add_loc_def scale_vec_def)
  with left have 2: "left_marking ?l ! 1 = \<lparr>loc_x = 0, loc_y = - 2, loc_z = 0\<rparr>" by simp
  from ex obtain k nd where "make_waypoint_dict two_lane_map two_lane_dict 7 2 ?l 1 = Inr (k, nd)"
    and "orientation nd =
        [roll (rotation (transform ?w)), pitch (rotation (transform ?w)),
         yaw (rotation (transform ?w))]" by blast
  then have 3: "\<exists>k nd. make_waypoint_dict two_lane_map two_lane_dict 7 2 ?l 1 = Inr (k, nd) \<and>
      orientation nd = [0, 0, 0]" by (simp add: wp_def)
  from 1 2 3 show ?thesis by blast
qed

section \<open>Node records\<close>

lemma drop_nths: "drop n xs = map ((!) xs) [n..<length xs]"
  by (rule nth_equalityI) simp_all

text \<open>
  C3. The record emitted for index \<open>i\<close> of a lane of a road group is produced without an
  error; its left (right) neighbour reference is the identity of the element at index \<open>i\<close>
  of the resolved left (right) neighbour lane when that lane is in the same road group
  and \<open>i\<close> is below the length of its sequence, and the sentinel \<open>-1\<close> when the lane is
  missing or the index is out of range.
\<close>

theorem neighbour_reference:
  assumes "build_map_dict gfv m = Some (Inr md)" and "map_of md rk = Some g"
    and "map_of g lk = Some l" and "i < length (waypoints l)"
  shows "\<exists>k nd. make_waypoint_dict m md rk lk l i = Inr (k, nd) \<and>
     (\<forall>nl. map_of g (left_lane_key lk) = Some nl \<and> i < length (waypoints nl) \<longrightarrow>
        left_lane_waypoint_id nd = id_w (waypoints nl ! i)) \<and>
     (map_of g (left_lane_key lk) = None \<or>
      (\<exists>nl. map_of g (left_lane_key lk) = Some nl \<and> length (waypoints nl) \<le> i) \<longrightarrow>
        left_lane_waypoint_id nd = - 1) \<and>
     (\<forall>nl. map_of g (right_lane_key lk) = Some nl \<and> i < length (waypoints nl) \<longrightarrow>
        right_lane_waypoint_id nd = id_w (waypoints nl ! i)) \<and>
     (map_of g (right_lane_key lk) = None \<or>
      (\<exists>nl. map_of g (right_lane_key lk) = Some nl \<and> length (waypoints nl) \<le> i) \<longrightarrow>
        right_lane_waypoint_id nd = - 1)"
proof -
  from assms(2,3) have "(rk, g) \<in> set md" "(lk, l) \<in> set g" by (auto dest: map_of_SomeD)
  with build_map_dict_well_formed [OF assms(1)] have "aligned l"
    by (auto simp: well_formed_def list_all_iff)
  define k where "k = fst (node_entry m g rk lk l i)"
  define nd where "nd = snd (node_entry m g rk lk l i)"
  from make_waypoint_dict_eq [OF assms(2,3,4) \<open>aligned l\<close>, of m]
  have e: "make_waypoint_dict m md rk lk l i = Inr (k, nd)" by (simp add: k_def nd_def)
  have lf: "left_lane_waypoint_id nd = neighbor_id g (left_lane_key lk) i"
    and rt: "right_lane_waypoint_id nd = neighbor_id g (right_lane_key lk) i"
    by (simp_all add: nd_def node_entry_def Let_def)
  have 1: "\<forall>nl. map_of g (left_lane_key lk) = Some nl \<and> i < length (waypoints nl) \<longrightarrow>
        left_lane_waypoint_id nd = id_w (waypoints nl ! i)"
    by (simp add: lf neighbor_id_def)
  have 2: "map_of g (left_lane_key lk) = None \<or>
      (\<exists>nl. map_of g (left_lane_key lk) = Some nl \<and> length (waypoints nl) \<le> i) \<longrightarrow>
        left_lane_waypoint_id nd = - 1"
    by (auto simp: lf neighbor_id_def)
  have 3: "\<forall>nl. map_of g (right_lane_key lk) = Some nl \<and> i < length (waypoints nl) \<longrightarrow>
        right_lane_waypoint_id nd = id_w (waypoints nl ! i)"
    by (simp add: rt neighbor_id_def)
  have 4: "map_of g (right_lane_key lk) = None \<or>
      (\<exists>nl. map_of g (right_lane_key lk) = Some nl \<and> length (waypoints nl) \<le> i) \<longrightarrow>
        right_lane_waypoint_id nd = - 1"
    by (auto simp: rt neighbor_id_def)
  from e 1 2 3 4 show ?thesis by blast
qed

theorem neighbour_reference_witness:
  "\<exists>k nd. make_waypoint_dict two_lane_map two_lane_dict 7 1
       (build_lane forward_y [wp 10 7 1 0, wp 11 7 1 0]) 0 = Inr (k, nd) \<and>
     left_lane_waypoint_id nd = - 1 \<and> right_lane_waypoint_id nd = 20"
proof -
  let ?l = "build_lane forward_y [wp 10 7 1 0, wp 11 7 1 0]"
  let ?r = "build_lane forward_y [wp 20 7 2 0, wp 21 7 2 0]"
  let ?g = "[(1::int, ?l), (2, ?r)]"
  have l: "map_of ?g 1 = Some ?l" by simp
  have i: "0 < length (waypoints ?l)" by (simp add: build_lane_def)
  have left: "map_of ?g (left_lane_key 1) = None" by (simp add: left_lane_key_def)
  have right: "map_of ?g (right_lane_key 1) = Some ?r \<and> 0 < length (waypoints ?r)"
    by (simp add: right_lane_key_def build_lane_def)
  from neighbour_reference [OF two_lane_build two_lane_group l i]
  obtain k nd where
    "make_waypoint_dict two_lane_map two_lane_dict 7 1 ?l 0 = Inr (k, nd)"
    and "map_of ?g (left_lane_key 1) = None \<or>
      (\<exists>nl. map_of ?g (left_lane_key 1) = Some nl \<and> length (waypoints nl) \<le> 0) \<longrightarrow>
        left_lane_waypoint_id nd = - 1"
    and "\<forall>nl. map_of ?g (right_lane_key 1) = Some nl \<and> 0 < length (waypoints nl) \<longrightarrow>
        right_lane_waypoint_id nd = id_w (waypoints nl ! 0)"
    by blast
  with left right have "make_waypoint_dict two_lane_map two_lane_dict 7 1 ?l 0 = Inr (k, nd)"
    and "left_lane_waypoint_id nd = - 1"
    and "right_lane_waypoint_id nd = id_w (waypoints ?r ! 0)" by blast+
  moreover have "id_w (waypoints ?r ! 0) = 20" by (simp add: build_lane_def wp_def)
  ultimately show ?thesis by auto
qed

text \<open>
  C4. The record emitted for index \<open>i\<close> of a lane sequence of length \<open>n\<close> lists as
  successors the identities of the waypoints at the indices \<open>i + 1\<close> to \<open>n - 1\<close> of that
  sequence, in order; their number is \<open>n - 1 - i\<close>, and the last waypoint has none.
\<close>

theorem forward_successors:
  assumes "build_map_dict gfv m = Some (Inr md)" and "map_of md rk = Some g"
    and "map_of g lk = Some l" and "i < length (waypoints l)"
  shows "\<exists>k nd. make_waypoint_dict m md rk lk l i = Inr (k, nd) \<and>
     next_waypoints_ids nd =
       map (\<lambda>j. id_w (waypoints l ! j)) [i + 1..<length (waypoints l)] \<and>
     length (next_waypoints_ids nd) = length (waypoints l) - 1 - i \<and>
     (i = length (waypoints l) - 1 \<longrightarrow> next_waypoints_ids nd = [])"
proof -
  from assms(2,3) have "(rk, g) \<in> set md" "(lk, l) \<in> set g" by (auto dest: map_of_SomeD)
  with build_map_dict_well_formed [OF assms(1)] have "aligned l"
    by (auto simp: well_formed_def list_all_iff)
  define k where "k = fst (node_entry m g rk lk l i)"
  define nd where "nd = snd (node_entry m g rk lk l i)"
  from make_waypoint_dict_eq [OF assms(2,3,4) \<open>aligned l\<close>, of m]
  have e: "make_waypoint_dict m md rk lk l i = Inr (k, nd)" by (simp add: k_def nd_def)
  have "next_waypoints_ids nd = map id_w (drop (i + 1) (waypoints l))"
    by (simp add: nd_def node_entry_def Let_def)
  also have "\<dots> = map (\<lambda>j. id_w (waypoints l ! j)) [i + 1..<length (waypoints l)]"
    by (subst drop_nths) simp
  finally have 1: "next_waypoints_ids nd =
      map (\<lambda>j. id_w (waypoints l ! j)) [i + 1..<length (waypoints l)]" .
  then have 2: "length (next_waypoints_ids nd) = length (waypoints l) - 1 - i" by simp
  from 1 have 3: "i = length (waypoints l) - 1 \<longrightarrow> next_waypoints_ids nd = []" by simp
  from e 1 2 3 show ?thesis by blast
qed

theorem forward_successors_witness:
  "(\<exists>k nd. make_waypoint_dict two_lane_map two_lane_dict 7 1
       (build_lane forward_y [wp 10 7 1 0, wp 11 7 1 0]) 0 = Inr (k, nd) \<and>
     next_waypoints_ids nd = [11]) \<and>
   (\<exists>k nd. make_waypoint_dict two_lane_map two_lane_dict 7 1
       (build_lane forward_y [wp 10 7 1 0, wp 11 7 1 0]) 1 = Inr (k, nd) \<and>
     next_waypoints_ids nd = [])"
proof -
  let ?l = "build_lane forward_y [wp 10 7 1 0, wp 11 7 1 0]"
  let ?g = "[(1::int, ?l), (2, build_lane forward_y [wp 20 7 2 0, wp 21 7 2 0])]"
  have l: "map_of ?g 1 = Some ?l" by simp
  have n: "length (waypoints ?l) = 2" by (simp add: build_lane_def)
  have i0: "0 < length (waypoints ?l)" and i1: "1 < length (waypoints ?l)" by (simp_all add: n)
  from forward_successors [OF two_lane_build two_lane_group l i0]
  obtain k nd where "make_waypoint_dict two_lane_map two_lane_dict 7 1 ?l 0 = Inr (k, nd)"
    and "next_waypoints_ids nd =
       map (\<lambda>j. id_w (waypoints ?l ! j)) [0 + 1..<length (waypoints ?l)]" by blast
  moreover have "map (\<lambda>j. id_w (waypoints ?l ! j)) [0 + 1..<length (waypoints ?l)] = [11]"
    by code_simp
  ultimately have a: "\<exists>k nd. make_waypoint_dict two_lane_map two_lane_dict 7 1 ?l 0 = Inr (k, nd) \<and>
     next_waypoints_ids nd = [11]" by auto
  from forward_successors [OF two_lane_build two_lane_group l i1]
  obtain k' nd' where "make_waypoint_dict two_lane_map two_lane_dict 7 1 ?l 1 = Inr (k', nd')"
    and "1 = length (waypoints ?l) - 1 \<longrightarrow> next_waypoints_ids nd' = []" by blast
  with n have b: "\<exists>k nd. make_waypoint_dict two_lane_map two_lane_dict 7 1 ?l 1 = Inr (k, nd) \<and>
     next_waypoints_ids nd = []" by auto
  from a b show ?thesis by blast
qed

section \<open>Empty topology\<close>

text \<open>
  C8. When the topology of the map is empty the builder returns the empty graph, and no
  error.
\<close>

theorem empty_topology:
  "get_topology m = [] \<Longrightarrow> get_scene_layout gfv m = Some (Inr [])"
  by (simp add: get_scene_layout_def build_map_dict_def sorted_topology_def assemble_def)

theorem empty_topology_witness:
  "get_scene_layout forward_y (two_lane_map\<lparr>get_topology := []\<rparr>) = Some (Inr [])"
  using empty_topology [of "two_lane_map\<lparr>get_topology := []\<rparr>" forward_y] by simp

section \<open>Neighbour references in the graph\<close>

lemma two_lane_layout: "get_scene_layout forward_y two_lane_map = Some (Inr two_lane_graph)"
  by code_simp

lemma merge_layout: "get_scene_layout forward_y merge_map = Some (Inr merge_graph)"
  by code_simp

lemma neighbor_id_real:
  assumes "neighbor_id g key i \<noteq> - 1"
  obtains nl where "map_of g key = Some nl" and "i < length (waypoints nl)"
    and "neighbor_id g key i = id_w (waypoints nl ! i)"
  using assms by (cases "map_of g key") (auto simp: neighbor_id_def split: if_splits)

text \<open>
  C7, as the code has it. A left neighbour reference other than \<open>-1\<close> in a record of the
  returned graph is a key of the graph. The record under that key has the resolved left
  neighbour lane as its lane provided that no waypoint identity occurs twice in the lane
  sequences of the road groups; the assembler stores every record under the identity of
  its waypoint and a later record replaces an earlier one with the same identity.
\<close>

theorem left_reference_resolves:
  assumes "build_map_dict gfv m = Some (Inr md)" and "get_scene_layout gfv m = Some (Inr gr)"
    and "map_of gr k = Some nd" and "left_lane_waypoint_id nd \<noteq> - 1"
  shows "(\<exists>nd'. map_of gr (left_lane_waypoint_id nd) = Some nd') \<and>
     (distinct (lane_ids md) \<longrightarrow>
        (\<exists>nd'. map_of gr (left_lane_waypoint_id nd) = Some nd' \<and>
           lane_id_n nd' = left_lane_key (lane_id_n nd)))"
proof -
  from assms(2) get_scene_layout_eq [OF assms(1)]
  have gr: "gr = stored (emissions m md) []" by simp
  with assms(3) have "(k, nd) \<in> set (emissions m md)" by (auto dest: stored_SomeD)
  then obtain rk g lk l i where g: "(rk, g) \<in> set md" and "(lk, l) \<in> set g"
    and "i < length (waypoints l)" and e: "(k, nd) = node_entry m g rk lk l i"
    unfolding emissions_iff by blast
  from e have nd: "nd = snd (node_entry m g rk lk l i)" by (metis snd_conv)
  have lane: "lane_id_n nd = lk" by (simp add: nd node_entry_def Let_def)
  have left: "left_lane_waypoint_id nd = neighbor_id g (left_lane_key lk) i"
    by (simp add: nd node_entry_def Let_def)
  with assms(4) have "neighbor_id g (left_lane_key lk) i \<noteq> - 1" by simp
  then obtain nl where nl: "map_of g (left_lane_key lk) = Some nl"
    and i: "i < length (waypoints nl)"
    and id: "neighbor_id g (left_lane_key lk) i = id_w (waypoints nl ! i)"
    by (rule neighbor_id_real)
  define k' where "k' = fst (node_entry m g rk (left_lane_key lk) nl i)"
  define nd' where "nd' = snd (node_entry m g rk (left_lane_key lk) nl i)"
  from nl have "(left_lane_key lk, nl) \<in> set g" by (rule map_of_SomeD)
  with g i have "\<exists>rk' g' lk' l' j. (rk', g') \<in> set md \<and> (lk', l') \<in> set g' \<and>
      j < length (waypoints l') \<and> (k', nd') = node_entry m g' rk' lk' l' j"
    unfolding k'_def nd'_def by (intro exI [of _ rk] exI [of _ g]
        exI [of _ "left_lane_key lk"] exI [of _ nl] exI [of _ i]) simp
  then have mem: "(k', nd') \<in> set (emissions m md)"
    unfolding emissions_iff .
  have k': "k' = left_lane_waypoint_id nd"
    by (simp add: k'_def fst_node_entry left id)
  have lane': "lane_id_n nd' = left_lane_key (lane_id_n nd)"
    by (simp add: nd'_def node_entry_def Let_def lane)
  from mem have "k' \<in> fst ` set gr" unfolding gr stored_keys by force
  then have 1: "\<exists>nd'. map_of gr (left_lane_waypoint_id nd) = Some nd'"
    unfolding k' by (metis map_of_eq_None_iff not_Some_eq)
  have 2: "distinct (lane_ids md) \<longrightarrow>
        (\<exists>nd'. map_of gr (left_lane_waypoint_id nd) = Some nd' \<and>
           lane_id_n nd' = left_lane_key (lane_id_n nd))"
  proof
    assume "distinct (lane_ids md)"
    then have "distinct (map fst (emissions m md))" by (simp add: map_fst_emissions)
    from stored_distinct [OF this mem, of "[]"] have "map_of gr k' = Some nd'" by (simp add: gr)
    with k' lane' show "\<exists>nd'. map_of gr (left_lane_waypoint_id nd) = Some nd' \<and>
           lane_id_n nd' = left_lane_key (lane_id_n nd)" by auto
  qed
  from 1 2 show ?thesis by blast
qed

theorem left_reference_resolves_witness:
  "\<exists>nd'. map_of two_lane_graph 10 = Some nd' \<and> lane_id_n nd' = 1"
proof -
  let ?nd = "plain_node 7 2 [21] 10 (- 1)"
  have k: "map_of two_lane_graph 20 = Some ?nd" by (simp add: two_lane_graph_def)
  have left: "left_lane_waypoint_id ?nd \<noteq> - 1" by (simp add: plain_node_def)
  have ids: "distinct (lane_ids two_lane_dict)" by code_simp
  from left_reference_resolves [OF two_lane_build two_lane_layout k left] ids
  have "\<exists>nd'. map_of two_lane_graph (left_lane_waypoint_id ?nd) = Some nd' \<and>
      lane_id_n nd' = left_lane_key (lane_id_n ?nd)" by blast
  then show ?thesis by (simp add: plain_node_def left_lane_key_def)
qed

text \<open>
  On the road whose lanes \<open>-2\<close> and \<open>-1\<close> merge, waypoint 5 is the second element of both
  lane sequences. Its record is stored last for lane \<open>-1\<close>, with itself as left neighbour:
  the referenced record has lane \<open>-1\<close>, and the resolved left neighbour of lane \<open>-1\<close> is
  \<open>-2\<close>.
\<close>

theorem left_reference_counterexample:
  "get_scene_layout forward_y merge_map = Some (Inr merge_graph) \<and>
   map_of merge_graph 5 = Some (plain_node 1 (- 1) [] 5 (- 1)) \<and>
   left_lane_waypoint_id (plain_node 1 (- 1) [] 5 (- 1)) = 5 \<and>
   left_lane_waypoint_id (plain_node 1 (- 1) [] 5 (- 1)) \<noteq> - 1 \<and>
   lane_id_n (plain_node 1 (- 1) [] 5 (- 1)) = - 1 \<and>
   left_lane_key (lane_id_n (plain_node 1 (- 1) [] 5 (- 1))) = - 2"
  by (simp add: merge_layout) (simp add: merge_graph_def plain_node_def left_lane_key_def)

section \<open>Two runs of the builder\<close>

lemma follows_cong:
  assumes "\<forall>w. next_w m1 w precision = next_w m2 w precision"
  shows "follows m1 seed nxt suf = follows m2 seed nxt suf"
  by (induction suf arbitrary: nxt) (simp_all add: assms)

lemma sample_lane_cong:
  assumes "\<forall>w. next_w m1 w precision = next_w m2 w precision"
  shows "sample_lane m1 seed = sample_lane m2 seed"
proof -
  have iff: "sample_lane m1 seed = Some ws \<longleftrightarrow> sample_lane m2 seed = Some ws" for ws
    unfolding sample_lane_follows
    by (simp only: assms [rule_format] follows_cong [OF assms])
  show ?thesis
  proof (cases "sample_lane m1 seed")
    case None
    show ?thesis
    proof (cases "sample_lane m2 seed")
      case (Some ws)
      with iff [of ws] None show ?thesis by simp
    qed (simp add: None)
  next
    case (Some ws)
    with iff [of ws] show ?thesis by simp
  qed
qed

lemma topology_loop_cong:
  assumes "\<forall>w. next_w m1 w precision = next_w m2 w precision"
  shows "topology_loop gfv m1 seeds md = topology_loop gfv m2 seeds md"
  by (induction seeds arbitrary: md)
    (simp_all add: sample_lane_cong [OF assms] split: option.splits sum.splits)

lemma make_waypoint_dict_cong:
  "transform_to_geolocation m1 = transform_to_geolocation m2 \<Longrightarrow>
   make_waypoint_dict m1 md rk lk l i = make_waypoint_dict m2 md rk lk l i"
  by (simp add: make_waypoint_dict_def)

lemma index_loop_cong:
  "transform_to_geolocation m1 = transform_to_geolocation m2 \<Longrightarrow>
   index_loop m1 md rk lk l is gr = index_loop m2 md rk lk l is gr"
  by (induction "is" arbitrary: gr) (simp_all add: make_waypoint_dict_cong [of m1 m2])

lemma lane_loop_cong:
  assumes "transform_to_geolocation m1 = transform_to_geolocation m2"
  shows "lane_loop m1 md rk lks = lane_loop m2 md rk lks"
proof (induction lks)
  case Nil
  show ?case by (rule ext) simp
next
  case (Cons lk lks)
  show ?case by (rule ext) (simp add: Cons.IH index_loop_cong [OF assms])
qed

lemma road_loop_cong:
  assumes "transform_to_geolocation m1 = transform_to_geolocation m2"
  shows "road_loop m1 md rks = road_loop m2 md rks"
proof (induction rks)
  case Nil
  show ?case by (rule ext) simp
next
  case (Cons rk rks)
  show ?case by (rule ext) (simp add: Cons.IH lane_loop_cong [OF assms])
qed

lemma sort_key_same_set:
  fixes f :: "'a \<Rightarrow> real"
  assumes "set xs = set ys" and "distinct (map f xs)" and "distinct (map f ys)"
  shows "sort_key f xs = sort_key f ys"
proof -
  from assms(2,3) have "distinct xs" "distinct ys" by (auto simp: distinct_map)
  with assms(1) have "mset xs = mset (sort_key f ys)"
    by (simp add: set_eq_iff_mset_eq_distinct)
  moreover from assms(2) have "inj_on f (set xs)" by (simp add: distinct_map)
  moreover have "sorted (map f (sort_key f ys))" by simp
  ultimately show ?thesis by (rule sort_key_inj_key_eq)
qed

text \<open>
  C9, as the code has it. Two map services with the same answers to the queries at step
  \<open>precision\<close>, the same projector and the same sequence of seeds in their topology (or
  the same set of seeds, when the elevations of the seeds are pairwise distinct) give the
  same result: both runs do not return, or both return the same dictionary with the same
  keys in the same order and the same records. The seeds are visited in ascending
  elevation, and seeds of equal elevation in the order of the topology.
\<close>

theorem builder_deterministic:
  assumes "\<forall>w. next_w m1 w precision = next_w m2 w precision"
    and "transform_to_geolocation m1 = transform_to_geolocation m2"
    and "map fst (get_topology m1) = map fst (get_topology m2) \<or>
         set (map fst (get_topology m1)) = set (map fst (get_topology m2)) \<and>
         distinct (map elevation (map fst (get_topology m1))) \<and>
         distinct (map elevation (map fst (get_topology m2)))"
  shows "get_scene_layout gfv m1 = get_scene_layout gfv m2 \<and>
     sorted_topology m1 = sorted_topology m2 \<and>
     sorted (map elevation (sorted_topology m1)) \<and>
     mset (sorted_topology m1) = mset (map fst (get_topology m1)) \<and>
     (\<forall>h. filter (\<lambda>w. elevation w = h) (sorted_topology m1) =
           filter (\<lambda>w. elevation w = h) (map fst (get_topology m1)))"
proof -
  from assms(3) have seeds: "sorted_topology m1 = sorted_topology m2"
    unfolding sorted_topology_def by (auto intro: sort_key_same_set)
  with topology_loop_cong [OF assms(1)]
  have md: "build_map_dict gfv m1 = build_map_dict gfv m2" by (simp add: build_map_dict_def)
  have "assemble m1 md = assemble m2 md" for md
    unfolding assemble_def by (simp only: road_loop_cong [OF assms(2)])
  with md have 1: "get_scene_layout gfv m1 = get_scene_layout gfv m2"
    by (simp add: get_scene_layout_def split: option.splits sum.splits)
  have 2: "sorted (map elevation (sorted_topology m1))"
    and 3: "mset (sorted_topology m1) = mset (map fst (get_topology m1))"
    by (simp_all add: sorted_topology_def)
  have 4: "\<forall>h. filter (\<lambda>w. elevation w = h) (sorted_topology m1) =
           filter (\<lambda>w. elevation w = h) (map fst (get_topology m1))"
    by (simp add: sorted_topology_def sort_key_stable)
  from 1 seeds 2 3 4 show ?thesis by blast
qed

theorem builder_deterministic_witness:
  "get_scene_layout forward_y (two_lane_map\<lparr>get_topology :=
       [(wp 10 7 1 0, wp 10 7 1 0), (wp 20 7 2 0, wp 20 7 2 0)]\<rparr>) =
     Some (Inr two_lane_graph) \<and>
   sorted_topology two_lane_map = [wp 10 7 1 0, wp 20 7 2 0] \<and>
   sorted_topology (two_lane_map\<lparr>get_topology :=
       [(wp 20 7 2 5, wp 21 7 2 0), (wp 10 7 1 0, wp 12 8 1 0)]\<rparr>) =
     [wp 10 7 1 0, wp 20 7 2 5]"
proof -
  let ?m = "two_lane_map\<lparr>get_topology :=
      [(wp 10 7 1 0, wp 10 7 1 0), (wp 20 7 2 0, wp 20 7 2 0)]\<rparr>"
  have a: "\<forall>w. next_w two_lane_map w precision = next_w ?m w precision" by simp
  have b: "transform_to_geolocation two_lane_map = transform_to_geolocation ?m" by simp
  have c: "map fst (get_topology two_lane_map) = map fst (get_topology ?m) \<or>
         set (map fst (get_topology two_lane_map)) = set (map fst (get_topology ?m)) \<and>
         distinct (map elevation (map fst (get_topology two_lane_map))) \<and>
         distinct (map elevation (map fst (get_topology ?m)))"
    by (simp add: two_lane_map_def)
  from builder_deterministic [OF a b c, of forward_y]
  have "get_scene_layout forward_y two_lane_map = get_scene_layout forward_y ?m"
    and f: "\<forall>h. filter (\<lambda>w. elevation w = h) (sorted_topology two_lane_map) =
           filter (\<lambda>w. elevation w = h) (map fst (get_topology two_lane_map))"
    by blast+
  then have 1: "get_scene_layout forward_y ?m = Some (Inr two_lane_graph)"
    by (simp add: two_lane_layout)
  have "\<forall>w \<in> set (sorted_topology two_lane_map). elevation w = 0"
    by (auto simp: sorted_topology_def two_lane_map_def wp_def elevation_def)
  then have "filter (\<lambda>w. elevation w = 0) (sorted_topology two_lane_map) =
      sorted_topology two_lane_map" by (simp only: filter_True)
  with f have "sorted_topology two_lane_map =
      filter (\<lambda>w. elevation w = 0) (map fst (get_topology two_lane_map))" by metis
  also have "\<dots> = [wp 10 7 1 0, wp 20 7 2 0]"
    by (simp add: two_lane_map_def wp_def elevation_def)
  finally have 2: "sorted_topology two_lane_map = [wp 10 7 1 0, wp 20 7 2 0]" .
  let ?up = "two_lane_map\<lparr>get_topology :=
      [(wp 20 7 2 5, wp 21 7 2 0), (wp 10 7 1 0, wp 12 8 1 0)]\<rparr>"
  let ?down = "two_lane_map\<lparr>get_topology :=
      [(wp 10 7 1 0, wp 12 8 1 0), (wp 20 7 2 5, wp 21 7 2 0)]\<rparr>"
  have a': "\<forall>w. next_w ?up w precision = next_w ?down w precision" by simp
  have b': "transform_to_geolocation ?up = transform_to_geolocation ?down" by simp
  have c': "map fst (get_topology ?up) = map fst (get_topology ?down) \<or>
         set (map fst (get_topology ?up)) = set (map fst (get_topology ?down)) \<and>
         distinct (map elevation (map fst (get_topology ?up))) \<and>
         distinct (map elevation (map fst (get_topology ?down)))"
    by (auto simp: wp_def elevation_def)
  from builder_deterministic [OF a' b' c', of forward_y]
  have "sorted_topology ?up = sorted_topology ?down" by blast
  also have "\<dots> = [wp 10 7 1 0, wp 20 7 2 5]"
    by (simp add: sorted_topology_def wp_def elevation_def)
  finally have 3: "sorted_topology ?up = [wp 10 7 1 0, wp 20 7 2 5]" .
  from 1 2 3 show ?thesis by blast
qed

text \<open>
  A road with two lane sections, each with a seed of lane 1 at elevation 0. The two
  topologies hold the same two entries in different order; the sort leaves each order as
  it is, the later seed replaces the lane record of the earlier one, and the graphs have
  different keys.
\<close>

theorem builder_order_counterexample:
  "set (get_topology (sections_map True)) = set (get_topology (sections_map False)) \<and>
   next_w (sections_map True) = next_w (sections_map False) \<and>
   transform_to_geolocation (sections_map True) =
     transform_to_geolocation (sections_map False) \<and>
   get_scene_layout forward_y (sections_map False) =
     Some (Inr [(2, plain_node 1 1 [] (- 1) (- 1))]) \<and>
   get_scene_layout forward_y (sections_map True) =
     Some (Inr [(1, plain_node 1 1 [] (- 1) (- 1))]) \<and>
   get_scene_layout forward_y (sections_map True) \<noteq>
     get_scene_layout forward_y (sections_map False)"
proof -
  have 1: "set (get_topology (sections_map True)) = set (get_topology (sections_map False))"
    by (auto simp: sections_map_def)
  have 2: "next_w (sections_map True) = next_w (sections_map False)"
    and 3: "transform_to_geolocation (sections_map True) =
      transform_to_geolocation (sections_map False)"
    by (simp_all add: sections_map_def)
  have 4: "get_scene_layout forward_y (sections_map False) =
      Some (Inr [(2, plain_node 1 1 [] (- 1) (- 1))])" by code_simp
  have 5: "get_scene_layout forward_y (sections_map True) =
      Some (Inr [(1, plain_node 1 1 [] (- 1) (- 1))])" by code_simp
  from 4 5 have 6: "get_scene_layout forward_y (sections_map True) \<noteq>
      get_scene_layout forward_y (sections_map False)" by simp
  from 1 2 3 4 5 6 show ?thesis by blast
qed

section \<open>Trigger volumes\<close>

lemma fold_update_mem:
  "(k, v) \<in> set (fold (\<lambda>a. AList.update (key a) (val a)) as d) \<Longrightarrow>
   (k, v) \<in> set d \<or> (\<exists>a \<in> set as. k = key a \<and> v = val a)"
proof (induction as arbitrary: d)
  case Nil
  then show ?case by simp
next
  case (Cons a as)
  then have "(k, v) \<in> set (fold (\<lambda>a. AList.update (key a) (val a)) as
      (AList.update (key a) (val a) d))" by simp
  from Cons.IH [OF this] show ?case
  proof
    assume "(k, v) \<in> set (AList.update (key a) (val a) d)"
    with set_update_subset [of "key a" "val a" d] show ?thesis by auto
  next
    assume "\<exists>a \<in> set as. k = key a \<and> v = val a"
    then show ?thesis by auto
  qed
qed

lemma trigger_volume_entries:
  "map (\<lambda>v. [longitude v, latitude v, altitude v]) (get_trigger_volume tp m a) = vs \<Longrightarrow>
   length vs = 5 \<and> vs ! 0 = projected_corner tp m a \<and> vs ! 4 = projected_corner tp m a"
  by (auto simp: get_trigger_volume_def projected_corner_def Let_def)

text \<open>
  C10. The \<^verbatim>\<open>trigger_volume\<close> field emitted for a stop sign or a traffic light has exactly
  five entries, and its first and its last entry are the projection of the same local
  corner \<open>(-x, -y)\<close> of the volume: the polygon is closed.
\<close>

theorem trigger_volume_closed:
  "((k, d) \<in> set (get_stop_signals tp m stops) \<longrightarrow>
      (\<exists>a \<in> set stops. k = id_a a \<and> length (st_trigger_volume d) = 5 \<and>
         st_trigger_volume d ! 0 = projected_corner tp m a \<and>
         st_trigger_volume d ! 4 = projected_corner tp m a)) \<and>
   ((k', d') \<in> set (get_traffic_lights tp m traffic_lights) \<longrightarrow>
      (\<exists>a \<in> set traffic_lights. k' = id_a a \<and> length (tl_trigger_volume d') = 5 \<and>
         tl_trigger_volume d' ! 0 = projected_corner tp m a \<and>
         tl_trigger_volume d' ! 4 = projected_corner tp m a))"
proof (intro conjI impI)
  let ?val = "\<lambda>stop.
      \<lparr>st_id = id_a stop,
       st_position = geo_list (transform_to_geolocation m (location (get_transform stop))),
       st_trigger_volume =
         map (\<lambda>v. [longitude v, latitude v, altitude v]) (get_trigger_volume tp m stop)\<rparr>"
  assume "(k, d) \<in> set (get_stop_signals tp m stops)"
  then have "(k, d) \<in> set (fold (\<lambda>a. AList.update (id_a a) (?val a)) stops [])"
    by (simp add: get_stop_signals_def Let_def)
  from fold_update_mem [OF this] obtain a where a: "a \<in> set stops" "k = id_a a" "d = ?val a"
    by auto
  from trigger_volume_entries [of tp m a "st_trigger_volume d"] a(3)
  have "length (st_trigger_volume d) = 5 \<and>
      st_trigger_volume d ! 0 = projected_corner tp m a \<and>
      st_trigger_volume d ! 4 = projected_corner tp m a" by simp
  with a(1,2) show "\<exists>a \<in> set stops. k = id_a a \<and> length (st_trigger_volume d) = 5 \<and>
         st_trigger_volume d ! 0 = projected_corner tp m a \<and>
         st_trigger_volume d ! 4 = projected_corner tp m a" by blast
next
  let ?val = "\<lambda>traffic_light.
      \<lparr>tl_id = id_a traffic_light,
       tl_state = state traffic_light,
       tl_position =
         geo_list (transform_to_geolocation m (location (get_transform traffic_light))),
       tl_trigger_volume =
         map (\<lambda>v. [longitude v, latitude v, altitude v])
           (get_trigger_volume tp m traffic_light)\<rparr>"
  assume "(k', d') \<in> set (get_traffic_lights tp m traffic_lights)"
  then have "(k', d') \<in> set (fold (\<lambda>a. AList.update (id_a a) (?val a)) traffic_lights [])"
    by (simp add: get_traffic_lights_def Let_def)
  from fold_update_mem [OF this] obtain a
    where a: "a \<in> set traffic_lights" "k' = id_a a" "d' = ?val a" by auto
  from trigger_volume_entries [of tp m a "tl_trigger_volume d'"] a(3)
  have "length (tl_trigger_volume d') = 5 \<and>
      tl_trigger_volume d' ! 0 = projected_corner tp m a \<and>
      tl_trigger_volume d' ! 4 = projected_corner tp m a" by simp
  with a(1,2) show "\<exists>a \<in> set traffic_lights. k' = id_a a \<and> length (tl_trigger_volume d') = 5 \<and>
         tl_trigger_volume d' ! 0 = projected_corner tp m a \<and>
         tl_trigger_volume d' ! 4 = projected_corner tp m a" by blast
qed

theorem trigger_volume_closed_witness:
  "length (st_trigger_volume (snd (hd (get_stop_signals translate two_lane_map [sign])))) = 5 \<and>
   st_trigger_volume (snd (hd (get_stop_signals translate two_lane_map [sign]))) ! 0 = [5, 0, 0] \<and>
   st_trigger_volume (snd (hd (get_stop_signals translate two_lane_map [sign]))) ! 4 = [5, 0, 0] \<and>
   tl_trigger_volume (snd (hd (get_traffic_lights translate two_lane_map [sign]))) ! 0 =
   tl_trigger_volume (snd (hd (get_traffic_lights translate two_lane_map [sign]))) ! 4"
proof -
  let ?d = "snd (hd (get_stop_signals translate two_lane_map [sign]))"
  let ?e = "snd (hd (get_traffic_lights translate two_lane_map [sign]))"
  have d: "(3, ?d) \<in> set (get_stop_signals translate two_lane_map [sign])"
    by (simp add: get_stop_signals_def sign_def Let_def)
  have e: "(3, ?e) \<in> set (get_traffic_lights translate two_lane_map [sign])"
    by (simp add: get_traffic_lights_def sign_def Let_def)
  have c: "projected_corner translate two_lane_map sign = [5, 0, 0]"
    by (simp add: projected_corner_def sign_def translate_def two_lane_map_def plain_geo_def
        add_loc_def Location_xy_def Let_def)
  from trigger_volume_closed [of 3 ?d translate two_lane_map "[sign]" 3 ?e "[sign]"] d e
  have "length (st_trigger_volume ?d) = 5 \<and>
      st_trigger_volume ?d ! 0 = projected_corner translate two_lane_map sign \<and>
      st_trigger_volume ?d ! 4 = projected_corner translate two_lane_map sign"
    and "tl_trigger_volume ?e ! 0 = projected_corner translate two_lane_map sign \<and>
      tl_trigger_volume ?e ! 4 = projected_corner translate two_lane_map sign"
    by simp_all
  with c show ?thesis by simp
qed

end
